theory Spec2Isabelle
  imports Complex_Main
begin

section \<open>Overview\<close>

text \<open>
  The sources hold three versions of one class, \<^verbatim>\<open>ProductShowcase\<close>, with the same method
  names. A definition carries the method's name and, where the versions differ, a suffix
  for the version it embeds:
  \<^item> \<open>_hover\<close>: the hover-driven variant, \<^verbatim>\<open>src/unnamed/part_000\<close>;
  \<^item> \<open>_scrollA\<close>: the first scroll-driven copy, \<^verbatim>\<open>src/assets/three-product-showcase.js\<close>
    lines 1 to 452 (placeholder models, created at once);
  \<^item> \<open>_scrollB\<close>: the second scroll-driven copy, lines 453 to 914 of the same file (models
    loaded asynchronously, camera aspect set in \<open>render\<close>);
  \<^item> \<open>_scroll\<close>, or no suffix: the method reads the same in both scroll copies (or in all
    three versions).
  Methods mutate \<^verbatim>\<open>this\<close>; the definitions take the instance and return it updated.
\<close>

section \<open>JavaScript numbers\<close>

text \<open>
  A JavaScript number is an IEEE double (binary64). The model keeps the special values
  and takes a finite value as the real it denotes; every arithmetic operation computes the
  exact result and rounds it to the nearest double, ties to the even significand, as the
  standard prescribes. Every zero is the positive zero (the only zero divisor the code can
  produce, the difference of two equal integers, is positive).
\<close>

datatype jsnum = Num real | PosInf | NegInf | NaN

text \<open>
  Rounding. The doubles around a real \<open>x\<close> are the integer multiples of \<open>ulp x\<close>, which is
  \<open>2 ^ (e - 52)\<close> for the exponent \<open>e\<close> of \<open>x\<close>, not below the exponent \<open>- 1022\<close> of the subnormal
  numbers. \<open>nearest x\<close> is the multiple nearest to \<open>x\<close>, and \<open>round64\<close> gives the infinities from
  \<open>2 ^ 1024\<close> on.
\<close>

definition binade :: "real \<Rightarrow> int" where
  "binade x = max \<lfloor>log 2 \<bar>x\<bar>\<rfloor> (- 1022)"

definition ulp :: "real \<Rightarrow> real" where
  "ulp x = 2 powr (real_of_int (binade x) - 52)"

definition round_even :: "real \<Rightarrow> int" where
  "round_even y =
     (let f = \<lfloor>y\<rfloor>
      in if y - of_int f < 1 / 2 then f
         else if 1 / 2 < y - of_int f then f + 1
         else if even f then f else f + 1)"

definition nearest :: "real \<Rightarrow> real" where
  "nearest x = (if x = 0 then 0 else of_int (round_even (x / ulp x)) * ulp x)"

definition round64 :: "real \<Rightarrow> jsnum" where
  "round64 x =
     (let r = nearest x
      in if 2 ^ 1024 \<le> r then PosInf else if r \<le> - (2 ^ 1024) then NegInf else Num r)"

text \<open>A real that is a double: rounding leaves it as it is.\<close>

definition is_double :: "real \<Rightarrow> bool" where
  "is_double x = (round64 x = Num x)"

text \<open>A decimal literal of the source denotes the double nearest to it; \<^verbatim>\<open>Math.PI\<close> is the
  double nearest to \<open>\<pi>\<close>.\<close>

definition literal :: "real \<Rightarrow> jsnum" where
  "literal x = round64 x"

definition Math_PI :: jsnum where
  "Math_PI = Num (884279719003555 / 2 ^ 48)"

fun js_neg :: "jsnum \<Rightarrow> jsnum" where
  "js_neg (Num a) = Num (- a)"
| "js_neg PosInf = NegInf"
| "js_neg NegInf = PosInf"
| "js_neg NaN = NaN"

fun js_add :: "jsnum \<Rightarrow> jsnum \<Rightarrow> jsnum" where
  "js_add (Num a) (Num b) = round64 (a + b)"
| "js_add NaN _ = NaN"
| "js_add _ NaN = NaN"
| "js_add PosInf NegInf = NaN"
| "js_add NegInf PosInf = NaN"
| "js_add PosInf _ = PosInf"
| "js_add _ PosInf = PosInf"
| "js_add NegInf _ = NegInf"
| "js_add _ NegInf = NegInf"

definition js_sub :: "jsnum \<Rightarrow> jsnum \<Rightarrow> jsnum" where
  "js_sub a b = js_add a (js_neg b)"

fun js_mul :: "jsnum \<Rightarrow> jsnum \<Rightarrow> jsnum" where
  "js_mul (Num a) (Num b) = round64 (a * b)"
| "js_mul NaN _ = NaN"
| "js_mul _ NaN = NaN"
| "js_mul (Num a) PosInf = (if a = 0 then NaN else if 0 < a then PosInf else NegInf)"
| "js_mul (Num a) NegInf = (if a = 0 then NaN else if 0 < a then NegInf else PosInf)"
| "js_mul PosInf (Num b) = (if b = 0 then NaN else if 0 < b then PosInf else NegInf)"
| "js_mul NegInf (Num b) = (if b = 0 then NaN else if 0 < b then NegInf else PosInf)"
| "js_mul PosInf PosInf = PosInf"
| "js_mul PosInf NegInf = NegInf"
| "js_mul NegInf PosInf = NegInf"
| "js_mul NegInf NegInf = PosInf"

fun js_div :: "jsnum \<Rightarrow> jsnum \<Rightarrow> jsnum" where
  "js_div (Num a) (Num b) =
     (if b = 0 then (if a = 0 then NaN else if 0 < a then PosInf else NegInf)
      else round64 (a / b))"
| "js_div NaN _ = NaN"
| "js_div _ NaN = NaN"
| "js_div (Num a) PosInf = Num 0"
| "js_div (Num a) NegInf = Num 0"
| "js_div PosInf (Num b) = (if 0 \<le> b then PosInf else NegInf)"
| "js_div NegInf (Num b) = (if 0 \<le> b then NegInf else PosInf)"
| "js_div _ _ = NaN"

text \<open>\<^verbatim>\<open>Math.min\<close> and \<^verbatim>\<open>Math.max\<close> of two arguments: NaN when either is NaN.\<close>

fun Math_min :: "jsnum \<Rightarrow> jsnum \<Rightarrow> jsnum" where
  "Math_min (Num a) (Num b) = Num (min a b)"
| "Math_min NaN _ = NaN"
| "Math_min _ NaN = NaN"
| "Math_min NegInf _ = NegInf"
| "Math_min _ NegInf = NegInf"
| "Math_min PosInf b = b"
| "Math_min a PosInf = a"

fun Math_max :: "jsnum \<Rightarrow> jsnum \<Rightarrow> jsnum" where
  "Math_max (Num a) (Num b) = Num (max a b)"
| "Math_max NaN _ = NaN"
| "Math_max _ NaN = NaN"
| "Math_max PosInf _ = PosInf"
| "Math_max _ PosInf = PosInf"
| "Math_max NegInf b = b"
| "Math_max a NegInf = a"

text \<open>\<^verbatim>\<open>Math.floor(n / 2)\<close> for a pixel count \<open>n\<close> (a non-negative integer).\<close>

definition Math_floor_half :: "nat \<Rightarrow> nat" where
  "Math_floor_half n = nat \<lfloor>real n / 2\<rfloor>"

text \<open>A pixel count read as a number (pixel counts are far below \<open>2\<^sup>5\<^sup>3\<close>, so each is a
  double).\<close>

definition of_px :: "nat \<Rightarrow> jsnum" where
  "of_px n = Num (real n)"

section \<open>The page, as the handlers read it\<close>

text \<open>
  The measurements a handler reads from the window and the container when it runs.
  Widths and heights are whole CSS pixels; the top of the bounding rectangle is any
  finite double.
\<close>

record page =
  innerWidth :: nat
  innerHeight :: nat
  clientWidth :: nat
  clientHeight :: nat
  offsetHeight :: nat
  rectTop :: real


section \<open>Scenes, models, camera and renderer\<close>

record panel =
  accentColor :: string

text \<open>The loading indicator element: the style properties and the attribute the code writes.\<close>

record loading_el =
  opacity :: string
  display :: string
  hidden :: bool

text \<open>
  A model group. Objects live in a store (\<open>objects\<close> below) and are referred to by their
  position in it, since the \<open>models\<close> array and a scene's children hold the same object.
  \<open>released\<close> records that \<open>destroy\<close> has disposed the object's geometry and material.
\<close>

record object3d =
  placeholder :: bool
  rotation_x :: jsnum
  rotation_y :: jsnum
  rotation_z :: jsnum
  released :: bool

text \<open>A scene: its accent colour and the model groups added to it (the light rig is fixed
  configuration and is left out).\<close>

record scene =
  accent :: string
  children :: "nat list"

text \<open>The shared camera: the \<open>aspect\<close> property and the aspect that the last
  \<^verbatim>\<open>updateProjectionMatrix()\<close> baked into the projection.\<close>

record camera =
  aspect :: jsnum
  projAspect :: jsnum

datatype rect = Rect nat nat nat nat

text \<open>
  The calls made on the renderer, in order. \<open>Render sc cam\<close> is
  \<^verbatim>\<open>renderer.render(scene, camera)\<close>: \<open>sc\<close> is the scene's index in \<open>scenes\<close>, or
  \<open>None\<close> when the argument is \<^verbatim>\<open>undefined\<close> (three.js then dereferences it and throws);
  \<open>cam\<close> is the camera as it is at the call.
\<close>

datatype glcall =
    SetSize nat nat
  | SetScissorTest bool
  | SetViewport rect
  | SetScissor rect
  | Render "nat option" camera
  | Dispose

datatype error = TypeError

section \<open>The showcase instance\<close>

text \<open>
  The fields the three variants of \<^verbatim>\<open>ProductShowcase\<close> share. \<open>gl\<close> is the log of calls on
  \<open>this.renderer\<close>; \<open>frameRequests\<close> counts the callbacks given to
  \<^verbatim>\<open>requestAnimationFrame\<close> that have not run yet; \<open>hideTimers\<close> counts the pending timeouts
  set by \<open>onModelsLoaded\<close>.
\<close>

record showcase =
  panels :: "panel list"
  loadingEl :: "loading_el option"
  scenes :: "scene list"
  models :: "nat option list"
  objects :: "object3d list"
  isMobile :: bool
  cam :: camera
  gl :: "glcall list"
  frameRequests :: nat
  hideTimers :: nat

text \<open>The scroll-driven variants (both copies in \<^verbatim>\<open>assets/three-product-showcase.js\<close>).
  \<open>canvasWrapper\<close> is the wrapper element's \<open>visibility\<close> style, \<open>None\<close> when the page has
  no such element. \<open>loadedCount\<close> and \<open>pendingLoads\<close> belong to the second copy: the counter
  its loader callbacks share, and the panel indices whose \<^verbatim>\<open>loader.load\<close> has not called
  back.\<close>

record scroll_showcase = showcase +
  scrollProgress :: jsnum
  targetScrollProgress :: jsnum
  isInView :: bool
  observing :: bool
  canvasWrapper :: "string option"
  loadedCount :: nat
  pendingLoads :: "nat list"

text \<open>The hover variant (\<^verbatim>\<open>part_000\<close>).\<close>

record hover_showcase = showcase +
  isHovered :: "bool list"
  rotationSpeed :: jsnum

subsection \<open>JavaScript arrays\<close>

text \<open>\<^verbatim>\<open>xs[i]\<close>: \<open>None\<close> is \<^verbatim>\<open>undefined\<close>, also past the end.\<close>

definition js_get :: "'a option list \<Rightarrow> nat \<Rightarrow> 'a option" where
  "js_get xs i = (if i < length xs then xs ! i else None)"

text \<open>\<^verbatim>\<open>xs[i] = v\<close>: an assignment past the end extends the array, leaving holes.\<close>

definition js_set :: "'a option list \<Rightarrow> nat \<Rightarrow> 'a \<Rightarrow> 'a option list" where
  "js_set xs i v =
     (if i < length xs then xs[i := Some v]
      else xs @ replicate (i - length xs) None @ [Some v])"

text \<open>\<^verbatim>\<open>this.scenes[i]\<close>: the scene's index when there is one, \<open>None\<close> for \<^verbatim>\<open>undefined\<close>.\<close>

definition scene_at :: "'a showcase_scheme \<Rightarrow> nat \<Rightarrow> nat option" where
  "scene_at s i = (if i < length (scenes s) then Some i else None)"

text \<open>\<^verbatim>\<open>this.isHovered[i]\<close> read for its truth value (\<^verbatim>\<open>undefined\<close> is falsy).\<close>

definition hovered :: "bool list \<Rightarrow> nat \<Rightarrow> bool" where
  "hovered hs i = (i < length hs \<and> hs ! i)"

text \<open>\<^verbatim>\<open>this.isHovered[i] = b\<close>; holes read as falsy.\<close>

definition set_hovered :: "bool list \<Rightarrow> nat \<Rightarrow> bool \<Rightarrow> bool list" where
  "set_hovered hs i b =
     (if i < length hs then hs[i := b]
      else hs @ replicate (i - length hs) False @ [b])"

subsection \<open>Renderer and camera calls\<close>

definition emit :: "glcall \<Rightarrow> 'a showcase_scheme \<Rightarrow> 'a showcase_scheme" where
  "emit c s = s\<lparr>gl := gl s @ [c]\<rparr>"

definition renderer_render :: "nat option \<Rightarrow> 'a showcase_scheme \<Rightarrow> 'a showcase_scheme" where
  "renderer_render sc s = emit (Render sc (cam s)) s"

definition set_aspect :: "jsnum \<Rightarrow> 'a showcase_scheme \<Rightarrow> 'a showcase_scheme" where
  "set_aspect a s = s\<lparr>cam := (cam s)\<lparr>aspect := a\<rparr>\<rparr>"

definition updateProjectionMatrix :: "'a showcase_scheme \<Rightarrow> 'a showcase_scheme" where
  "updateProjectionMatrix s = s\<lparr>cam := (cam s)\<lparr>projAspect := aspect (cam s)\<rparr>\<rparr>"

definition requestAnimationFrame :: "'a showcase_scheme \<Rightarrow> 'a showcase_scheme" where
  "requestAnimationFrame s = s\<lparr>frameRequests := frameRequests s + 1\<rparr>"

section \<open>render\<close>

text \<open>\<^verbatim>\<open>render()\<close> of the hover variant (\<^verbatim>\<open>part_000\<close>): the first scene is drawn without a
  test, the second only when it exists; the camera is not touched.\<close>

definition render_hover :: "page \<Rightarrow> 'a showcase_scheme \<Rightarrow> 'a showcase_scheme" where
  "render_hover pg s =
     (let width = clientWidth pg; height = clientHeight pg;
          s = emit (SetScissorTest True) s
      in if isMobile s then
           (let halfHeight = Math_floor_half height;
                s = emit (SetViewport (Rect 0 halfHeight width halfHeight)) s;
                s = emit (SetScissor (Rect 0 halfHeight width halfHeight)) s;
                s = renderer_render (scene_at s 0) s
            in if scene_at s 1 \<noteq> None then
                 (let s = emit (SetViewport (Rect 0 0 width halfHeight)) s;
                      s = emit (SetScissor (Rect 0 0 width halfHeight)) s
                  in renderer_render (scene_at s 1) s)
               else s)
         else
           (let halfWidth = Math_floor_half width;
                s = emit (SetViewport (Rect 0 0 halfWidth height)) s;
                s = emit (SetScissor (Rect 0 0 halfWidth height)) s;
                s = renderer_render (scene_at s 0) s
            in if scene_at s 1 \<noteq> None then
                 (let s = emit (SetViewport (Rect halfWidth 0 halfWidth height)) s;
                      s = emit (SetScissor (Rect halfWidth 0 halfWidth height)) s
                  in renderer_render (scene_at s 1) s)
               else s))"

text \<open>\<^verbatim>\<open>render()\<close> of the first scroll copy: both draws are guarded; the camera is not
  touched.\<close>

definition render_scrollA :: "page \<Rightarrow> 'a showcase_scheme \<Rightarrow> 'a showcase_scheme" where
  "render_scrollA pg s =
     (let width = innerWidth pg; height = innerHeight pg;
          s = emit (SetScissorTest True) s
      in if isMobile s then
           (let halfHeight = Math_floor_half height;
                s = emit (SetViewport (Rect 0 halfHeight width halfHeight)) s;
                s = emit (SetScissor (Rect 0 halfHeight width halfHeight)) s;
                s = (if scene_at s 0 \<noteq> None then renderer_render (scene_at s 0) s else s)
            in if scene_at s 1 \<noteq> None then
                 (let s = emit (SetViewport (Rect 0 0 width halfHeight)) s;
                      s = emit (SetScissor (Rect 0 0 width halfHeight)) s
                  in renderer_render (scene_at s 1) s)
               else s)
         else
           (let halfWidth = Math_floor_half width;
                s = emit (SetViewport (Rect 0 0 halfWidth height)) s;
                s = emit (SetScissor (Rect 0 0 halfWidth height)) s;
                s = (if scene_at s 0 \<noteq> None then renderer_render (scene_at s 0) s else s)
            in if scene_at s 1 \<noteq> None then
                 (let s = emit (SetViewport (Rect halfWidth 0 halfWidth height)) s;
                      s = emit (SetScissor (Rect halfWidth 0 halfWidth height)) s
                  in renderer_render (scene_at s 1) s)
               else s))"

text \<open>\<^verbatim>\<open>render()\<close> of the second scroll copy: as the first, and the camera's aspect is set
  to the half surface and the projection recomputed before the draws.\<close>

definition render_scrollB :: "page \<Rightarrow> 'a showcase_scheme \<Rightarrow> 'a showcase_scheme" where
  "render_scrollB pg s =
     (let width = innerWidth pg; height = innerHeight pg;
          s = emit (SetScissorTest True) s
      in if isMobile s then
           (let halfHeight = Math_floor_half height;
                s = set_aspect (js_div (of_px width) (of_px halfHeight)) s;
                s = updateProjectionMatrix s;
                s = emit (SetViewport (Rect 0 halfHeight width halfHeight)) s;
                s = emit (SetScissor (Rect 0 halfHeight width halfHeight)) s;
                s = (if scene_at s 0 \<noteq> None then renderer_render (scene_at s 0) s else s)
            in if scene_at s 1 \<noteq> None then
                 (let s = emit (SetViewport (Rect 0 0 width halfHeight)) s;
                      s = emit (SetScissor (Rect 0 0 width halfHeight)) s
                  in renderer_render (scene_at s 1) s)
               else s)
         else
           (let halfWidth = Math_floor_half width;
                s = set_aspect (js_div (of_px halfWidth) (of_px height)) s;
                s = updateProjectionMatrix s;
                s = emit (SetViewport (Rect 0 0 halfWidth height)) s;
                s = emit (SetScissor (Rect 0 0 halfWidth height)) s;
                s = (if scene_at s 0 \<noteq> None then renderer_render (scene_at s 0) s else s)
            in if scene_at s 1 \<noteq> None then
                 (let s = emit (SetViewport (Rect halfWidth 0 halfWidth height)) s;
                      s = emit (SetScissor (Rect halfWidth 0 halfWidth height)) s
                  in renderer_render (scene_at s 1) s)
               else s))"

text \<open>The calls one function makes on the renderer: what it appends to the log.\<close>

definition calls_of :: "('a showcase_scheme \<Rightarrow> 'a showcase_scheme) \<Rightarrow> 'a showcase_scheme \<Rightarrow> glcall list" where
  "calls_of f s = drop (length (gl s)) (gl (f s))"

text \<open>The rectangles given to \<^verbatim>\<open>setViewport\<close> and to \<^verbatim>\<open>setScissor\<close>, in order.\<close>

fun viewports :: "glcall list \<Rightarrow> rect list" where
  "viewports [] = []"
| "viewports (SetViewport r # cs) = r # viewports cs"
| "viewports (_ # cs) = viewports cs"

fun scissors :: "glcall list \<Rightarrow> rect list" where
  "scissors [] = []"
| "scissors (SetScissor r # cs) = r # scissors cs"
| "scissors (_ # cs) = scissors cs"

text \<open>The pixels of a rectangle \<open>(x, y, width, height)\<close>, and the drawing surface.\<close>

fun pixels :: "rect \<Rightarrow> (nat \<times> nat) set" where
  "pixels (Rect x y w h) = {x ..< x + w} \<times> {y ..< y + h}"

definition surface :: "nat \<Rightarrow> nat \<Rightarrow> (nat \<times> nat) set" where
  "surface width height = pixels (Rect 0 0 width height)"

section \<open>Construction\<close>

text \<open>\<^verbatim>\<open>setupRenderer()\<close>: the renderer is sized and the scissor test switched on (pixel
  ratio, colour space and tone mapping are fixed configuration and left out). The scroll
  copies size it to the window, the hover variant to the container.\<close>

definition setupRenderer_scroll :: "page \<Rightarrow> 'a showcase_scheme \<Rightarrow> 'a showcase_scheme" where
  "setupRenderer_scroll pg s =
     emit (SetScissorTest True) (emit (SetSize (innerWidth pg) (innerHeight pg)) s)"

definition setupRenderer_hover :: "page \<Rightarrow> 'a showcase_scheme \<Rightarrow> 'a showcase_scheme" where
  "setupRenderer_hover pg s =
     emit (SetScissorTest True) (emit (SetSize (clientWidth pg) (clientHeight pg)) s)"

text \<open>\<^verbatim>\<open>setupScenes()\<close>: one scene is pushed per panel, in order.\<close>

definition new_scene :: "panel \<Rightarrow> scene" where
  "new_scene p = \<lparr>accent = accentColor p, children = []\<rparr>"

definition setupScenes :: "'a showcase_scheme \<Rightarrow> 'a showcase_scheme" where
  "setupScenes s = fold (\<lambda>p s. s\<lparr>scenes := scenes s @ [new_scene p]\<rparr>) (panels s) s"

text \<open>\<^verbatim>\<open>setupCamera()\<close>: a new perspective camera with the aspect of the whole surface (its
  constructor computes the projection).\<close>

definition setupCamera_scroll :: "page \<Rightarrow> 'a showcase_scheme \<Rightarrow> 'a showcase_scheme" where
  "setupCamera_scroll pg s =
     (let a = js_div (of_px (innerWidth pg)) (of_px (innerHeight pg))
      in s\<lparr>cam := \<lparr>aspect = a, projAspect = a\<rparr>\<rparr>)"

definition setupCamera_hover :: "page \<Rightarrow> 'a showcase_scheme \<Rightarrow> 'a showcase_scheme" where
  "setupCamera_hover pg s =
     (let a = js_div (of_px (clientWidth pg)) (of_px (clientHeight pg))
      in s\<lparr>cam := \<lparr>aspect = a, projAspect = a\<rparr>\<rparr>)"

text \<open>The last two statements of \<^verbatim>\<open>createPlaceholderModel\<close> and of the loader's success
  callback: \<^verbatim>\<open>this.models[index] = group; this.scenes[index].add(group)\<close>. The group is a
  new object; a missing scene makes the second statement throw.\<close>

definition add_model :: "nat \<Rightarrow> object3d \<Rightarrow> 'a showcase_scheme \<Rightarrow> error + 'a showcase_scheme" where
  "add_model index grp s =
     (let r = length (objects s);
          s = s\<lparr>objects := objects s @ [grp]\<rparr>;
          s = s\<lparr>models := js_set (models s) index r\<rparr>
      in if index < length (scenes s) then
           Inr (s\<lparr>scenes := (scenes s)[index := (scenes s ! index)
                  \<lparr>children := children (scenes s ! index) @ [r]\<rparr>]\<rparr>)
         else Inl TypeError)"

text \<open>\<^verbatim>\<open>createPlaceholderModel(index, panel)\<close>: the group's rotation is zero in the scroll
  copies and tilted about x in the hover variant (the meshes of the group are left out).\<close>

definition createPlaceholderModel_scroll ::
  "nat \<Rightarrow> panel \<Rightarrow> 'a showcase_scheme \<Rightarrow> error + 'a showcase_scheme" where
  "createPlaceholderModel_scroll index p s =
     add_model index \<lparr>placeholder = True, rotation_x = Num 0, rotation_y = Num 0,
       rotation_z = Num 0, released = False\<rparr> s"

definition createPlaceholderModel_hover ::
  "nat \<Rightarrow> panel \<Rightarrow> 'a showcase_scheme \<Rightarrow> error + 'a showcase_scheme" where
  "createPlaceholderModel_hover index p s =
     add_model index \<lparr>placeholder = True, rotation_x = js_neg (literal 0.2),
       rotation_y = Num 0, rotation_z = Num 0, released = False\<rparr> s"

text \<open>\<^verbatim>\<open>onModelsLoaded()\<close>: with a loading element, its opacity is set and a timeout is
  started; the timeout hides it (\<open>hidden\<close> in the scroll copies, \<open>display\<close> in the hover
  variant).\<close>

definition onModelsLoaded :: "'a showcase_scheme \<Rightarrow> 'a showcase_scheme" where
  "onModelsLoaded s =
     (case loadingEl s of
        None \<Rightarrow> s
      | Some el \<Rightarrow> s\<lparr>loadingEl := Some (el\<lparr>opacity := ''0''\<rparr>),
                      hideTimers := hideTimers s + 1\<rparr>)"

definition hideTimeout_scroll :: "'a showcase_scheme \<Rightarrow> 'a showcase_scheme" where
  "hideTimeout_scroll s =
     (if hideTimers s = 0 then s
      else s\<lparr>loadingEl := map_option (\<lambda>el. el\<lparr>hidden := True\<rparr>) (loadingEl s),
             hideTimers := hideTimers s - 1\<rparr>)"

definition hideTimeout_hover :: "'a showcase_scheme \<Rightarrow> 'a showcase_scheme" where
  "hideTimeout_hover s =
     (if hideTimers s = 0 then s
      else s\<lparr>loadingEl := map_option (\<lambda>el. el\<lparr>display := ''none''\<rparr>) (loadingEl s),
             hideTimers := hideTimers s - 1\<rparr>)"

text \<open>\<^verbatim>\<open>loadModels()\<close> of the first scroll copy and of the hover variant: for each panel a
  placeholder is created at once, the local counter goes up, and \<open>onModelsLoaded\<close> is
  called when the counter equals the number of panels. The arguments of the loop are the
  index, the counter and the panels still to visit.\<close>

fun loadModels_scrollA_loop ::
  "nat \<Rightarrow> nat \<Rightarrow> panel list \<Rightarrow> 'a showcase_scheme \<Rightarrow> error + 'a showcase_scheme" where
  "loadModels_scrollA_loop index loaded [] s = Inr s"
| "loadModels_scrollA_loop index loaded (p # ps) s =
     (case createPlaceholderModel_scroll index p s of
        Inl e \<Rightarrow> Inl e
      | Inr s \<Rightarrow>
          loadModels_scrollA_loop (index + 1) (loaded + 1) ps
            (if loaded + 1 = length (panels s) then onModelsLoaded s else s))"

definition loadModels_scrollA :: "'a showcase_scheme \<Rightarrow> error + 'a showcase_scheme" where
  "loadModels_scrollA s = loadModels_scrollA_loop 0 0 (panels s) s"

fun loadModels_hover_loop ::
  "nat \<Rightarrow> nat \<Rightarrow> panel list \<Rightarrow> 'a showcase_scheme \<Rightarrow> error + 'a showcase_scheme" where
  "loadModels_hover_loop index loaded [] s = Inr s"
| "loadModels_hover_loop index loaded (p # ps) s =
     (case createPlaceholderModel_hover index p s of
        Inl e \<Rightarrow> Inl e
      | Inr s \<Rightarrow>
          loadModels_hover_loop (index + 1) (loaded + 1) ps
            (if loaded + 1 = length (panels s) then onModelsLoaded s else s))"

definition loadModels_hover :: "'a showcase_scheme \<Rightarrow> error + 'a showcase_scheme" where
  "loadModels_hover s = loadModels_hover_loop 0 0 (panels s) s"

text \<open>\<^verbatim>\<open>loadModels()\<close> of the second scroll copy: the shared counter starts at zero and one
  load is started per panel; nothing else happens until a load calls back.\<close>

definition loadModels_scrollB :: "'a scroll_showcase_scheme \<Rightarrow> 'a scroll_showcase_scheme" where
  "loadModels_scrollB s =
     s\<lparr>loadedCount := 0, pendingLoads := pendingLoads s @ [0 ..< length (panels s)]\<rparr>"

text \<open>What both callbacks of a load do last: count, and signal when all have counted.\<close>

definition count_load :: "'a scroll_showcase_scheme \<Rightarrow> 'a scroll_showcase_scheme" where
  "count_load s =
     (let s = s\<lparr>loadedCount := loadedCount s + 1\<rparr>
      in if loadedCount s = length (panels s) then onModelsLoaded s else s)"

text \<open>The success callback of the load for panel \<open>index\<close>: the loaded model, wrapped in two
  groups, is stored and added to its scene (material, centring and scale are left out).\<close>

definition onLoad :: "nat \<Rightarrow> 'a scroll_showcase_scheme \<Rightarrow> error + 'a scroll_showcase_scheme" where
  "onLoad index s =
     (case add_model index \<lparr>placeholder = False, rotation_x = Num 0, rotation_y = Num 0,
             rotation_z = Num 0, released = False\<rparr> s of
        Inl e \<Rightarrow> Inl e
      | Inr s \<Rightarrow> Inr (count_load s))"

text \<open>The error callback: the placeholder takes the model's place.\<close>

definition onError :: "nat \<Rightarrow> 'a scroll_showcase_scheme \<Rightarrow> error + 'a scroll_showcase_scheme" where
  "onError index s =
     (case createPlaceholderModel_scroll index (panels s ! index) s of
        Inl e \<Rightarrow> Inl e
      | Inr s \<Rightarrow> Inr (count_load s))"

section \<open>Handlers\<close>

text \<open>\<^verbatim>\<open>onScroll()\<close> (both scroll copies): the target is the scrolled distance over the
  scrollable distance, between \<^verbatim>\<open>Math.min(1, _)\<close> and \<^verbatim>\<open>Math.max(0, _)\<close>. The divisor is
  used as it is.\<close>

definition onScroll :: "page \<Rightarrow> 'a scroll_showcase_scheme \<Rightarrow> 'a scroll_showcase_scheme" where
  "onScroll pg s =
     (let sectionHeight = of_px (offsetHeight pg);
          viewportHeight = of_px (innerHeight pg);
          scrolled = js_neg (Num (rectTop pg));
          totalScrollable = js_sub sectionHeight viewportHeight
      in s\<lparr>targetScrollProgress :=
             Math_max (Num 0) (Math_min (Num 1) (js_div scrolled totalScrollable))\<rparr>)"

text \<open>\<^verbatim>\<open>onResize()\<close>: the layout flag follows the window's width; camera and renderer
  follow the window (scroll copies) or the container (hover variant).\<close>

definition onResize_scroll :: "page \<Rightarrow> 'a showcase_scheme \<Rightarrow> 'a showcase_scheme" where
  "onResize_scroll pg s =
     (let width = innerWidth pg; height = innerHeight pg;
          s = s\<lparr>isMobile := innerWidth pg < 768\<rparr>;
          s = set_aspect (js_div (of_px width) (of_px height)) s;
          s = updateProjectionMatrix s
      in emit (SetSize width height) s)"

definition onResize_hover :: "page \<Rightarrow> 'a showcase_scheme \<Rightarrow> 'a showcase_scheme" where
  "onResize_hover pg s =
     (let width = clientWidth pg; height = clientHeight pg;
          s = s\<lparr>isMobile := innerWidth pg < 768\<rparr>;
          s = set_aspect (js_div (of_px width) (of_px height)) s;
          s = updateProjectionMatrix s
      in emit (SetSize width height) s)"

text \<open>The intersection observer's callback, given \<open>isIntersecting\<close> of each entry.\<close>

definition observerCallback :: "bool list \<Rightarrow> 'a scroll_showcase_scheme \<Rightarrow> 'a scroll_showcase_scheme" where
  "observerCallback entries s =
     fold (\<lambda>isIntersecting s.
        s\<lparr>isInView := isIntersecting,
          canvasWrapper := map_option
            (\<lambda>_. if isIntersecting then ''visible'' else ''hidden'') (canvasWrapper s)\<rparr>)
       entries s"

text \<open>The hover variant's listeners: enter and leave of the panel element \<open>index\<close>, mouse
  move on the canvas, and mouse leave of the canvas. Pointer and rectangle coordinates are
  multiples of a fraction of a pixel, of screen size: their differences and halves are
  doubles, so \<open>onMouseMove\<close> is written with the arithmetic of the reals.\<close>

definition onPanelEnter :: "nat \<Rightarrow> 'a hover_showcase_scheme \<Rightarrow> 'a hover_showcase_scheme" where
  "onPanelEnter index s = s\<lparr>isHovered := set_hovered (isHovered s) index True\<rparr>"

definition onPanelLeave :: "nat \<Rightarrow> 'a hover_showcase_scheme \<Rightarrow> 'a hover_showcase_scheme" where
  "onPanelLeave index s = s\<lparr>isHovered := set_hovered (isHovered s) index False\<rparr>"



section \<open>animate\<close>

text \<open>\<^verbatim>\<open>this.models.forEach((model) => { if (model) model.rotation.z = z })\<close>.\<close>

fun set_rotation_z :: "jsnum \<Rightarrow> nat option list \<Rightarrow> object3d list \<Rightarrow> object3d list" where
  "set_rotation_z z [] os = os"
| "set_rotation_z z (None # ms) os = set_rotation_z z ms os"
| "set_rotation_z z (Some r # ms) os =
     set_rotation_z z ms (os[r := (os ! r)\<lparr>rotation_z := z\<rparr>])"

text \<open>The first statements of \<^verbatim>\<open>animate()\<close> in the scroll copies, up to the call of
  \<open>render\<close>: the next frame is requested first; out of view nothing else is done (\<open>None\<close>);
  in view the displayed progress moves towards the target by the factor 0.08 and every
  model's rotation about z is set from it.\<close>

definition animate_step :: "'a scroll_showcase_scheme \<Rightarrow> 'a scroll_showcase_scheme" where
  "animate_step s =
     (let s = s\<lparr>scrollProgress := js_add (scrollProgress s)
                 (js_mul (js_sub (targetScrollProgress s) (scrollProgress s)) (literal 0.08))\<rparr>;
          targetRotationZ = js_mul (js_mul (scrollProgress s) Math_PI) (Num 2)
      in s\<lparr>objects := set_rotation_z targetRotationZ (models s) (objects s)\<rparr>)"

definition animate_scrollA :: "page \<Rightarrow> 'a scroll_showcase_scheme \<Rightarrow> 'a scroll_showcase_scheme" where
  "animate_scrollA pg s =
     (let s = requestAnimationFrame s
      in if \<not> isInView s then s
         else render_scrollA pg (animate_step s))"

definition animate_scrollB :: "page \<Rightarrow> 'a scroll_showcase_scheme \<Rightarrow> 'a scroll_showcase_scheme" where
  "animate_scrollB pg s =
     (let s = requestAnimationFrame s
      in if \<not> isInView s then s
         else render_scrollB pg (animate_step s))"

text \<open>\<^verbatim>\<open>animate()\<close> of the hover variant; \<open>delta\<close> is what \<^verbatim>\<open>this.clock.getDelta()\<close> returns.
  A model that exists and is not hovered turns about y by \<open>rotationSpeed * delta\<close>. There is
  no test of visibility. \<^verbatim>\<open>renderer.render(undefined, camera)\<close> throws a \<^verbatim>\<open>TypeError\<close> (three.js
  reads a property of the scene), and the exception leaves \<open>render\<close> and \<open>animate\<close>.\<close>

fun spin_models ::
  "jsnum \<Rightarrow> bool list \<Rightarrow> nat \<Rightarrow> nat option list \<Rightarrow> object3d list \<Rightarrow> object3d list" where
  "spin_models a hs index [] os = os"
| "spin_models a hs index (None # ms) os = spin_models a hs (index + 1) ms os"
| "spin_models a hs index (Some r # ms) os =
     spin_models a hs (index + 1) ms
       (if \<not> hovered hs index
        then os[r := (os ! r)\<lparr>rotation_y := js_add (rotation_y (os ! r)) a\<rparr>]
        else os)"

fun draws_undefined :: "glcall list \<Rightarrow> bool" where
  "draws_undefined [] = False"
| "draws_undefined (Render None c # cs) = True"
| "draws_undefined (_ # cs) = draws_undefined cs"

definition animate_hover ::
  "page \<Rightarrow> real \<Rightarrow> 'a hover_showcase_scheme \<Rightarrow> error + 'a hover_showcase_scheme" where
  "animate_hover pg delta s =
     (let s = requestAnimationFrame s;
          s = s\<lparr>objects := spin_models (js_mul (rotationSpeed s) (Num delta)) (isHovered s) 0
                 (models s) (objects s)\<rparr>
      in if draws_undefined (calls_of (render_hover pg) s) then Inl TypeError
         else Inr (render_hover pg s))"

section \<open>destroy\<close>

text \<open>Disposing the geometry and material of the objects with the given references.\<close>

fun release :: "nat list \<Rightarrow> object3d list \<Rightarrow> object3d list" where
  "release [] os = os"
| "release (r # rs) os = release rs (os[r := (os ! r)\<lparr>released := True\<rparr>])"

text \<open>\<^verbatim>\<open>destroy()\<close>: the observer is disconnected (scroll copies), the renderer disposed, and
  every object of every scene releases its geometry and material. Nothing else is
  written.\<close>

definition destroy_scroll :: "'a scroll_showcase_scheme \<Rightarrow> 'a scroll_showcase_scheme" where
  "destroy_scroll s =
     (let s = s\<lparr>observing := False\<rparr>;
          s = emit Dispose s
      in s\<lparr>objects := release (concat (map children (scenes s))) (objects s)\<rparr>)"

definition destroy_hover :: "'a showcase_scheme \<Rightarrow> 'a showcase_scheme" where
  "destroy_hover s =
     (let s = emit Dispose s
      in s\<lparr>objects := release (concat (map children (scenes s))) (objects s)\<rparr>)"

section \<open>The constructors\<close>

text \<open>
  \<^verbatim>\<open>new ProductShowcase(container)\<close>: the fields are set from the container (its parsed
  panels, its loading element, its canvas wrapper) and \<open>init\<close> runs the set-up steps and
  the first \<open>animate\<close>. Registering the listeners changes no field; creating the observer
  sets \<open>observing\<close>. The camera does not exist before \<open>setupCamera\<close>, and nothing reads it
  before. An exception thrown by a step leaves \<open>init\<close> and the constructor.
\<close>

definition init_scrollA :: "page \<Rightarrow> 'a scroll_showcase_scheme \<Rightarrow> error + 'a scroll_showcase_scheme" where
  "init_scrollA pg s =
     (let s = setupRenderer_scroll pg s;
          s = setupScenes s;
          s = setupCamera_scroll pg s
      in case loadModels_scrollA s of
           Inl e \<Rightarrow> Inl e
         | Inr s \<Rightarrow> Inr (animate_scrollA pg (s\<lparr>observing := True\<rparr>)))"

definition init_scrollB :: "page \<Rightarrow> 'a scroll_showcase_scheme \<Rightarrow> 'a scroll_showcase_scheme" where
  "init_scrollB pg s =
     (let s = setupRenderer_scroll pg s;
          s = setupScenes s;
          s = setupCamera_scroll pg s;
          s = loadModels_scrollB s
      in animate_scrollB pg (s\<lparr>observing := True\<rparr>))"

definition init_hover :: "page \<Rightarrow> real \<Rightarrow> 'a hover_showcase_scheme \<Rightarrow> error + 'a hover_showcase_scheme" where
  "init_hover pg delta s =
     (let s = setupRenderer_hover pg s;
          s = setupScenes s;
          s = setupCamera_hover pg s
      in case loadModels_hover s of
           Inl e \<Rightarrow> Inl e
         | Inr s \<Rightarrow> animate_hover pg delta s)"

definition new_scroll :: "page \<Rightarrow> panel list \<Rightarrow> loading_el option \<Rightarrow> string option \<Rightarrow> scroll_showcase" where
  "new_scroll pg ps el wrapper =
     \<lparr>panels = ps, loadingEl = el, scenes = [], models = [], objects = [],
      isMobile = innerWidth pg < 768, cam = \<lparr>aspect = NaN, projAspect = NaN\<rparr>,
      gl = [], frameRequests = 0, hideTimers = 0,
      scrollProgress = Num 0, targetScrollProgress = Num 0, isInView = True,
      observing = False, canvasWrapper = wrapper, loadedCount = 0, pendingLoads = []\<rparr>"

definition constructor_scrollA ::
  "page \<Rightarrow> panel list \<Rightarrow> loading_el option \<Rightarrow> string option \<Rightarrow> error + scroll_showcase" where
  "constructor_scrollA pg ps el wrapper = init_scrollA pg (new_scroll pg ps el wrapper)"

definition constructor_scrollB ::
  "page \<Rightarrow> panel list \<Rightarrow> loading_el option \<Rightarrow> string option \<Rightarrow> scroll_showcase" where
  "constructor_scrollB pg ps el wrapper = init_scrollB pg (new_scroll pg ps el wrapper)"

definition new_hover :: "page \<Rightarrow> panel list \<Rightarrow> loading_el option \<Rightarrow> hover_showcase" where
  "new_hover pg ps el =
     \<lparr>panels = ps, loadingEl = el, scenes = [], models = [], objects = [],
      isMobile = innerWidth pg < 768, cam = \<lparr>aspect = NaN, projAspect = NaN\<rparr>,
      gl = [], frameRequests = 0, hideTimers = 0,
      isHovered = [False, False], rotationSpeed = literal 0.3\<rparr>"

definition constructor_hover ::
  "page \<Rightarrow> real \<Rightarrow> panel list \<Rightarrow> loading_el option \<Rightarrow> error + hover_showcase" where
  "constructor_hover pg delta ps el = init_hover pg delta (new_hover pg ps el)"

section \<open>Events\<close>

text \<open>
  What the browser delivers to a scroll instance after construction: an animation frame
  (only when one was requested), a scroll or a resize of the window, an observer
  notification (only while the observer is connected), the timeout of the loading
  indicator (only when one is pending), and the outcome of a load (only for a load that
  is pending).
\<close>

datatype event =
    AnimationFrame page
  | ScrollEvent page
  | ResizeEvent page
  | Intersection "bool list"
  | HideTimeout
  | LoadSuccess nat
  | LoadFailure nat

fun dispatch_scrollA :: "event \<Rightarrow> 'a scroll_showcase_scheme \<Rightarrow> 'a scroll_showcase_scheme" where
  "dispatch_scrollA (AnimationFrame pg) s =
     (if frameRequests s = 0 then s
      else animate_scrollA pg (s\<lparr>frameRequests := frameRequests s - 1\<rparr>))"
| "dispatch_scrollA (ScrollEvent pg) s = onScroll pg s"
| "dispatch_scrollA (ResizeEvent pg) s = onResize_scroll pg s"
| "dispatch_scrollA (Intersection entries) s =
     (if observing s then observerCallback entries s else s)"
| "dispatch_scrollA HideTimeout s = hideTimeout_scroll s"
| "dispatch_scrollA (LoadSuccess index) s = s"
| "dispatch_scrollA (LoadFailure index) s = s"

fun dispatch_scrollB :: "event \<Rightarrow> 'a scroll_showcase_scheme \<Rightarrow> error + 'a scroll_showcase_scheme" where
  "dispatch_scrollB (AnimationFrame pg) s =
     Inr (if frameRequests s = 0 then s
          else animate_scrollB pg (s\<lparr>frameRequests := frameRequests s - 1\<rparr>))"
| "dispatch_scrollB (ScrollEvent pg) s = Inr (onScroll pg s)"
| "dispatch_scrollB (ResizeEvent pg) s = Inr (onResize_scroll pg s)"
| "dispatch_scrollB (Intersection entries) s =
     Inr (if observing s then observerCallback entries s else s)"
| "dispatch_scrollB HideTimeout s = Inr (hideTimeout_scroll s)"
| "dispatch_scrollB (LoadSuccess index) s =
     (if index \<in> set (pendingLoads s)
      then onLoad index (s\<lparr>pendingLoads := remove1 index (pendingLoads s)\<rparr>)
      else Inr s)"
| "dispatch_scrollB (LoadFailure index) s =
     (if index \<in> set (pendingLoads s)
      then onError index (s\<lparr>pendingLoads := remove1 index (pendingLoads s)\<rparr>)
      else Inr s)"

fun run_scrollB :: "event list \<Rightarrow> 'a scroll_showcase_scheme \<Rightarrow> error + 'a scroll_showcase_scheme" where
  "run_scrollB [] s = Inr s"
| "run_scrollB (e # es) s =
     (case dispatch_scrollB e s of Inl x \<Rightarrow> Inl x | Inr s \<Rightarrow> run_scrollB es s)"

section \<open>Vocabulary of the properties\<close>

text \<open>The two rectangles \<open>render\<close> computes, as functions of the layout flag and the size of
  the surface; \<open>render_scrollA_calls\<close> and its siblings below show that these are the
  arguments the code passes.\<close>

definition first_region :: "bool \<Rightarrow> nat \<Rightarrow> nat \<Rightarrow> rect" where
  "first_region mobile w h =
     (if mobile then Rect 0 (h div 2) w (h div 2) else Rect 0 0 (w div 2) h)"

definition second_region :: "bool \<Rightarrow> nat \<Rightarrow> nat \<Rightarrow> rect" where
  "second_region mobile w h =
     (if mobile then Rect 0 0 w (h div 2) else Rect (w div 2) 0 (w div 2) h)"

text \<open>The aspect the second scroll copy gives the camera: width / height of the half
  surface.\<close>

definition half_aspect :: "bool \<Rightarrow> nat \<Rightarrow> nat \<Rightarrow> jsnum" where
  "half_aspect mobile w h =
     (if mobile then js_div (of_px w) (of_px (h div 2)) else js_div (of_px (w div 2)) (of_px h))"

text \<open>A frame's calls set two viewports, each with the same scissor rectangle, that are
  disjoint and whose union is the whole surface.\<close>

definition covers_exactly :: "glcall list \<Rightarrow> nat \<Rightarrow> nat \<Rightarrow> bool" where
  "covers_exactly cs w h =
     (let rs = viewports cs
      in scissors cs = rs \<and> length rs = 2
         \<and> pixels (rs ! 0) \<inter> pixels (rs ! 1) = {}
         \<and> pixels (rs ! 0) \<union> pixels (rs ! 1) = surface w h)"

text \<open>The same, but the union lies inside the surface and misses nothing when the split
  dimension is even and exactly its last row or column when it is odd.\<close>

definition halves_surface :: "glcall list \<Rightarrow> bool \<Rightarrow> nat \<Rightarrow> nat \<Rightarrow> bool" where
  "halves_surface cs mobile w h =
     (let rs = viewports cs
      in scissors cs = rs \<and> length rs = 2
         \<and> pixels (rs ! 0) \<inter> pixels (rs ! 1) = {}
         \<and> pixels (rs ! 0) \<union> pixels (rs ! 1) \<subseteq> surface w h
         \<and> surface w h - (pixels (rs ! 0) \<union> pixels (rs ! 1)) =
             (if mobile then (if even h then {} else {0 ..< w} \<times> {h - 1})
              else (if even w then {} else {w - 1} \<times> {0 ..< h})))"

text \<open>The quotient width / height of a rectangle, as JavaScript computes it.\<close>

definition rect_aspect :: "rect \<Rightarrow> jsnum" where
  "rect_aspect r = (case r of Rect x y w h \<Rightarrow> js_div (of_px w) (of_px h))"

text \<open>Every pending load is for a panel that has a scene.\<close>

definition loads_in_range :: "'a scroll_showcase_scheme \<Rightarrow> bool" where
  "loads_in_range s = list_all (\<lambda>i. i < length (scenes s)) (pendingLoads s)"

subsection \<open>Concrete pages and instances\<close>

text \<open>The two panels of the specification's scenario; a page whose container fills a window
  of the given size and has not been scrolled; and the instances the three constructors
  build on such a page (no loading element, no canvas wrapper).\<close>

definition spec_panels :: "panel list" where
  "spec_panels = [\<lparr>accentColor = ''#1E90FF''\<rparr>, \<lparr>accentColor = ''#FF4500''\<rparr>]"

definition page_of :: "nat \<Rightarrow> nat \<Rightarrow> page" where
  "page_of w h = \<lparr>innerWidth = w, innerHeight = h, clientWidth = w, clientHeight = h,
     offsetHeight = h, rectTop = 0\<rparr>"

definition scrollA_at :: "nat \<Rightarrow> nat \<Rightarrow> scroll_showcase" where
  "scrollA_at w h = projr (constructor_scrollA (page_of w h) spec_panels None None)"

definition scrollB_at :: "nat \<Rightarrow> nat \<Rightarrow> scroll_showcase" where
  "scrollB_at w h = constructor_scrollB (page_of w h) spec_panels None None"

definition hover_at :: "nat \<Rightarrow> nat \<Rightarrow> panel list \<Rightarrow> hover_showcase" where
  "hover_at w h ps = projr (constructor_hover (page_of w h) 0 ps None)"

text \<open>The hover instance on such a page with no panels, as it is when the constructor's
  first \<open>animate\<close> calls \<open>render\<close>: set up, with one frame requested.\<close>

definition hover_without_panels :: "nat \<Rightarrow> nat \<Rightarrow> hover_showcase" where
  "hover_without_panels w h =
     requestAnimationFrame (setupCamera_hover (page_of w h) (setupScenes
       (setupRenderer_hover (page_of w h) (new_hover (page_of w h) [] None))))"

text \<open>An instance in view whose target is the double \<open>t\<close> and whose displayed progress is the
  double \<open>p\<close>, both in [0,1].\<close>

definition steady :: "'a scroll_showcase_scheme \<Rightarrow> real \<Rightarrow> real \<Rightarrow> bool" where
  "steady s t p =
     (isInView s \<and> targetScrollProgress s = Num t \<and> scrollProgress s = Num p
      \<and> is_double t \<and> is_double p \<and> 0 \<le> t \<and> t \<le> 1 \<and> 0 \<le> p \<and> p \<le> 1)"

text \<open>The displayed progress after one tick and after \<open>n\<close> ticks, from the displayed progress
  \<open>d\<close> towards the target \<open>t\<close>: the three roundings of
  \<^verbatim>\<open>scrollProgress += (target - scrollProgress) * 0.08\<close> written out.\<close>

definition smooth :: "real \<Rightarrow> real \<Rightarrow> real" where
  "smooth t d = nearest (d + nearest (nearest (t - d) * nearest 0.08))"

fun smooth_n :: "nat \<Rightarrow> real \<Rightarrow> real \<Rightarrow> real" where
  "smooth_n 0 t d = d"
| "smooth_n (Suc n) t d = smooth_n n t (smooth t d)"

section \<open>Arithmetic of the model\<close>

lemma Math_floor_half_div: "Math_floor_half n = n div 2"
proof -
  have "\<lfloor>real n / real (2::nat)\<rfloor> = int (n div 2)"
    by (rule floor_divide_of_nat_eq)
  then show ?thesis by (simp add: Math_floor_half_def)
qed

section \<open>Rounding to the nearest double\<close>

subsection \<open>round_even\<close>

lemma round_even_cases:
  "round_even y = \<lfloor>y\<rfloor> \<and> y - of_int \<lfloor>y\<rfloor> \<le> 1 / 2
   \<or> round_even y = \<lfloor>y\<rfloor> + 1 \<and> 1 / 2 \<le> y - of_int \<lfloor>y\<rfloor>"
  by (auto simp: round_even_def Let_def)

lemma round_even_close: "\<bar>of_int (round_even y) - y\<bar> \<le> 1 / 2"
  using round_even_cases [of y] by (auto; linarith)

lemma round_even_of_int [simp]: "round_even (of_int n) = n"
  by (simp add: round_even_def)

lemma round_even_ge: "of_int n \<le> y \<Longrightarrow> n \<le> round_even y"
proof -
  assume "of_int n \<le> y"
  then have "n \<le> \<lfloor>y\<rfloor>" by (simp add: le_floor_iff)
  then show ?thesis using round_even_cases [of y] by auto
qed

lemma round_even_le: "y \<le> of_int n \<Longrightarrow> round_even y \<le> n"
proof -
  assume h: "y \<le> of_int n"
  from floor_mono [OF h] have f: "\<lfloor>y\<rfloor> \<le> n" by simp
  show ?thesis
  proof (cases "round_even y = \<lfloor>y\<rfloor>")
    case True
    with f show ?thesis by simp
  next
    case False
    with round_even_cases [of y] have r: "round_even y = \<lfloor>y\<rfloor> + 1" "1 / 2 \<le> y - of_int \<lfloor>y\<rfloor>"
      by auto
    then have "of_int \<lfloor>y\<rfloor> < y" by linarith
    with h have "of_int \<lfloor>y\<rfloor> < (of_int n :: real)" by linarith
    then have "\<lfloor>y\<rfloor> < n" by (simp only: of_int_less_iff)
    with r show ?thesis by simp
  qed
qed

lemma round_even_eqI:
  assumes "of_int n - 1 / 2 < y" "y < of_int n + 1 / 2"
  shows "round_even y = n"
proof -
  have c: "\<bar>of_int (round_even y) - y\<bar> \<le> 1 / 2" by (rule round_even_close)
  then have d: "of_int (round_even y) - y \<le> 1 / 2" "y - of_int (round_even y) \<le> 1 / 2"
    by linarith+
  have e: "(of_int (n + 1) :: real) = of_int n + 1" "(of_int (n - 1) :: real) = of_int n - 1"
    by simp_all
  from assms d have "of_int (round_even y) < (of_int (n + 1) :: real)"
    "(of_int (n - 1) :: real) < of_int (round_even y)" unfolding e by linarith+
  then have "round_even y < n + 1" "n - 1 < round_even y"
    by (simp_all only: of_int_less_iff)
  then show ?thesis by simp
qed

lemma round_even_nonneg:
  assumes "0 \<le> y"
  shows "0 \<le> round_even y" "of_int (round_even y) \<le> 2 * y"
proof -
  show "0 \<le> round_even y" using round_even_ge [of 0 y] assms by simp
  have f: "of_int \<lfloor>y\<rfloor> \<le> y" by (rule of_int_floor_le)
  have g: "(0::real) \<le> of_int \<lfloor>y\<rfloor>" using assms by simp
  from round_even_cases [of y] show "of_int (round_even y) \<le> 2 * y"
  proof
    assume a: "round_even y = \<lfloor>y\<rfloor> \<and> y - of_int \<lfloor>y\<rfloor> \<le> 1 / 2"
    then have "of_int (round_even y) = (of_int \<lfloor>y\<rfloor> :: real)" by simp
    with f assms show ?thesis by linarith
  next
    assume a: "round_even y = \<lfloor>y\<rfloor> + 1 \<and> 1 / 2 \<le> y - of_int \<lfloor>y\<rfloor>"
    then have "of_int (round_even y) = (of_int \<lfloor>y\<rfloor> :: real) + 1" by simp
    with a g show ?thesis by linarith
  qed
qed

lemma round_even_nonpos:
  assumes "y \<le> 0"
  shows "round_even y \<le> 0" "2 * y \<le> of_int (round_even y)"
proof -
  show "round_even y \<le> 0" using round_even_le [of y 0] assms by simp
  have c: "\<bar>of_int (round_even y) - y\<bar> \<le> 1 / 2" by (rule round_even_close)
  show "2 * y \<le> of_int (round_even y)"
  proof (cases "y \<le> - 1 / 2")
    case True
    with c show ?thesis by linarith
  next
    case False
    with assms have "round_even y = 0" by (intro round_even_eqI) simp_all
    with assms show ?thesis by simp
  qed
qed


subsection \<open>binade and ulp\<close>

lemma ulp_pos: "0 < ulp x"
  by (simp add: ulp_def)

lemma binade_lower: "- 1022 \<le> binade x"
  by (simp add: binade_def)

lemma floor_log_le: "0 < x \<Longrightarrow> x < 2 powr (of_int e + 1) \<Longrightarrow> \<lfloor>log 2 x\<rfloor> \<le> e"
proof -
  assume "0 < x" "x < 2 powr (of_int e + 1)"
  then have "log 2 x < of_int e + 1" by (simp add: log_less_iff)
  then have "log 2 x < of_int (e + 1)" by simp
  then have "\<lfloor>log 2 x\<rfloor> < e + 1" by (simp only: floor_less_iff)
  then show ?thesis by simp
qed

lemma floor_log_ge: "2 powr of_int e \<le> x \<Longrightarrow> e \<le> \<lfloor>log 2 x\<rfloor>"
proof -
  assume a: "2 powr of_int e \<le> x"
  have "0 < (2::real) powr of_int e" by simp
  with a have "0 < x" by linarith
  with a have "of_int e \<le> log 2 x" by (simp add: le_log_iff)
  then show ?thesis by (simp add: le_floor_iff)
qed

lemma binade_le: "0 < \<bar>x\<bar> \<Longrightarrow> \<bar>x\<bar> < 2 powr (of_int e + 1) \<Longrightarrow> - 1022 \<le> e \<Longrightarrow> binade x \<le> e"
  using floor_log_le [of "\<bar>x\<bar>" e] by (simp add: binade_def)

lemma binade_ge: "2 powr of_int e \<le> \<bar>x\<bar> \<Longrightarrow> e \<le> binade x"
  using floor_log_ge [of e "\<bar>x\<bar>"] by (simp add: binade_def)

lemma binade_eqI:
  assumes "2 powr of_int e \<le> \<bar>x\<bar>" "\<bar>x\<bar> < 2 powr (of_int e + 1)" "- 1022 \<le> e"
  shows "binade x = e"
proof -
  have "0 < (2::real) powr of_int e" by simp
  with assms(1) have "0 < \<bar>x\<bar>" by linarith
  from binade_le [OF this assms(2,3)] binade_ge [OF assms(1)] show ?thesis by simp
qed

lemma below_next_binade: "0 < x \<Longrightarrow> x < 2 powr (of_int (binade x) + 1)"
proof -
  assume p: "0 < x"
  have "log 2 x < of_int \<lfloor>log 2 x\<rfloor> + 1" by linarith
  also have "\<dots> \<le> of_int (binade x) + 1" using p by (simp add: binade_def)
  finally have "log 2 x < of_int (binade x) + 1" .
  with p show ?thesis by (simp add: log_less_iff)
qed

lemma above_binade: "0 < x \<Longrightarrow> - 1022 < binade x \<Longrightarrow> 2 powr of_int (binade x) \<le> x"
proof -
  assume p: "0 < x" and b: "- 1022 < binade x"
  then have "binade x = \<lfloor>log 2 x\<rfloor>" by (simp add: binade_def max_def split: if_splits)
  moreover have "of_int \<lfloor>log 2 x\<rfloor> \<le> log 2 x" by simp
  ultimately have "of_int (binade x) \<le> log 2 x" by simp
  with p show ?thesis by (simp add: le_log_iff)
qed

lemma binade_mono: "0 < x \<Longrightarrow> x \<le> y \<Longrightarrow> binade x \<le> binade y"
proof -
  assume "0 < x" "x \<le> y"
  then have "log 2 x \<le> log 2 y" by simp
  then have "\<lfloor>log 2 x\<rfloor> \<le> \<lfloor>log 2 y\<rfloor>" by (rule floor_mono)
  with \<open>0 < x\<close> \<open>x \<le> y\<close> show ?thesis by (simp add: binade_def)
qed

lemma binade_small: "x \<noteq> 0 \<Longrightarrow> \<bar>x\<bar> < 2 \<Longrightarrow> binade x \<le> 0"
  using binade_le [of x 0] by simp

lemma ulp_small: "x \<noteq> 0 \<Longrightarrow> \<bar>x\<bar> < 2 \<Longrightarrow> ulp x \<le> 1 / 2 ^ 52"
proof -
  assume "x \<noteq> 0" "\<bar>x\<bar> < 2"
  then have "real_of_int (binade x) - 52 \<le> - 52" using binade_small [of x] by simp
  then have "(2::real) powr (real_of_int (binade x) - 52) \<le> 2 powr (- 52)"
    by (intro powr_mono) simp_all
  then show ?thesis by (simp add: ulp_def powr_minus_divide)
qed

lemma scale_binade: "2 powr of_int e / 2 powr (of_int e - 52) = (of_int (2 ^ 52) :: real)"
proof -
  have "(2::real) powr of_int e / 2 powr (of_int e - 52) = 2 powr (of_int e - (of_int e - 52))"
    by (simp only: powr_diff [symmetric])
  then show ?thesis by simp
qed

lemma scale_next_binade: "2 powr (of_int e + 1) / 2 powr (of_int e - 52) = (of_int (2 ^ 53) :: real)"
proof -
  have "(2::real) powr (of_int e + 1) / 2 powr (of_int e - 52)
          = 2 powr (of_int e + 1 - (of_int e - 52))"
    by (simp only: powr_diff [symmetric])
  then show ?thesis by simp
qed

subsection \<open>nearest\<close>

lemma nearest_0 [simp]: "nearest 0 = 0"
  by (simp add: nearest_def)

lemma nearest_nonzero: "x \<noteq> 0 \<Longrightarrow> nearest x = of_int (round_even (x / ulp x)) * ulp x"
  by (simp add: nearest_def)

lemma nearest_close: "\<bar>nearest x - x\<bar> \<le> ulp x / 2"
proof (cases "x = 0")
  case True
  then show ?thesis using ulp_pos [of x] by simp
next
  case False
  have u: "0 < ulp x" by (rule ulp_pos)
  have "\<bar>of_int (round_even (x / ulp x)) - x / ulp x\<bar> \<le> 1 / 2" by (rule round_even_close)
  then have "\<bar>of_int (round_even (x / ulp x)) - x / ulp x\<bar> * ulp x \<le> 1 / 2 * ulp x"
    using u by (intro mult_right_mono) simp_all
  moreover have "\<bar>of_int (round_even (x / ulp x)) - x / ulp x\<bar> * ulp x = \<bar>nearest x - x\<bar>"
  proof -
    have "\<bar>of_int (round_even (x / ulp x)) - x / ulp x\<bar> * ulp x
            = \<bar>(of_int (round_even (x / ulp x)) - x / ulp x) * ulp x\<bar>"
      using u by (simp add: abs_mult)
    also have "(of_int (round_even (x / ulp x)) - x / ulp x) * ulp x = nearest x - x"
      using u False by (simp add: nearest_def field_simps)
    finally show ?thesis .
  qed
  ultimately show ?thesis by simp
qed

lemma nearest_close_small: "\<bar>x\<bar> < 2 \<Longrightarrow> \<bar>nearest x - x\<bar> \<le> 1 / 2 ^ 53"
proof (cases "x = 0")
  case True
  then show ?thesis by simp
next
  case False
  assume "\<bar>x\<bar> < 2"
  from ulp_small [OF False this] nearest_close [of x] show ?thesis by simp
qed

lemma nearest_nonneg:
  assumes "0 \<le> x"
  shows "0 \<le> nearest x" "nearest x \<le> 2 * x"
proof -
  have u: "0 < ulp x" by (rule ulp_pos)
  with assms have y: "0 \<le> x / ulp x" by simp
  from round_even_nonneg(1) [OF y] u show "0 \<le> nearest x" by (simp add: nearest_def)

  from round_even_nonneg(2) [OF y]
  have "of_int (round_even (x / ulp x)) * ulp x \<le> 2 * (x / ulp x) * ulp x"
    using u by (intro mult_right_mono) simp_all
  then show "nearest x \<le> 2 * x" using u by (simp add: nearest_def)
qed

lemma nearest_nonpos:
  assumes "x \<le> 0"
  shows "nearest x \<le> 0" "2 * x \<le> nearest x"
proof -
  have u: "0 < ulp x" by (rule ulp_pos)
  with assms have y: "x / ulp x \<le> 0" by (simp add: divide_nonpos_pos)
  from round_even_nonpos(1) [OF y] u show "nearest x \<le> 0"
    by (simp add: nearest_def mult_nonpos_nonneg)
  from round_even_nonpos(2) [OF y]
  have "2 * (x / ulp x) * ulp x \<le> of_int (round_even (x / ulp x)) * ulp x"
    using u by (intro mult_right_mono) simp_all
  then show "2 * x \<le> nearest x" using u by (simp add: nearest_def)
qed


lemma binade_times_ulp: "of_int (2 ^ 52) * ulp v = 2 powr of_int (binade v)"
proof -
  have "ulp v \<noteq> 0" using ulp_pos [of v] by simp
  with scale_binade [of "binade v"] show ?thesis
    by (simp add: ulp_def field_simps)
qed

lemma next_binade_times_ulp: "of_int (2 ^ 53) * ulp v = 2 powr (of_int (binade v) + 1)"
proof -
  have "ulp v \<noteq> 0" using ulp_pos [of v] by simp
  with scale_next_binade [of "binade v"] show ?thesis
    by (simp add: ulp_def field_simps)
qed

lemma round_even_in_binade:
  assumes "0 < v"
  shows "round_even (v / ulp v) \<le> 2 ^ 53"
    and "- 1022 < binade v \<Longrightarrow> 2 ^ 52 \<le> round_even (v / ulp v)"
proof -
  have u: "0 < ulp v" by (rule ulp_pos)
  from below_next_binade [OF assms] have "v \<le> of_int (2 ^ 53) * ulp v"
    by (simp only: next_binade_times_ulp)
  with u have "v / ulp v \<le> of_int (2 ^ 53)" by (simp add: field_simps)
  then show "round_even (v / ulp v) \<le> 2 ^ 53" by (rule round_even_le)
  assume "- 1022 < binade v"
  from above_binade [OF assms this] have "of_int (2 ^ 52) * ulp v \<le> v"
    by (simp only: binade_times_ulp)
  with u have "of_int (2 ^ 52) \<le> v / ulp v" by (simp add: field_simps)
  then show "2 ^ 52 \<le> round_even (v / ulp v)" by (rule round_even_ge)
qed

lemma nearest_in_binade:
  assumes "0 < v"
  shows "nearest v \<le> 2 powr (of_int (binade v) + 1)"
    and "- 1022 < binade v \<Longrightarrow> 2 powr of_int (binade v) \<le> nearest v"
proof -
  have u: "0 < ulp v" by (rule ulp_pos)
  from assms have n: "nearest v = of_int (round_even (v / ulp v)) * ulp v"
    by (simp add: nearest_def)
  from round_even_in_binade(1) [OF assms]
  have "(of_int (round_even (v / ulp v)) :: real) \<le> of_int (2 ^ 53)"
    by (simp only: of_int_le_iff)
  then have "of_int (round_even (v / ulp v)) * ulp v \<le> of_int (2 ^ 53) * ulp v"
    using u by (intro mult_right_mono) simp_all
  then show "nearest v \<le> 2 powr (of_int (binade v) + 1)"
    by (simp only: n next_binade_times_ulp)
  assume "- 1022 < binade v"
  from round_even_in_binade(2) [OF assms this]
  have "(of_int (2 ^ 52) :: real) \<le> of_int (round_even (v / ulp v))"
    by (simp only: of_int_le_iff)
  then have "of_int (2 ^ 52) * ulp v \<le> of_int (round_even (v / ulp v)) * ulp v"
    using u by (intro mult_right_mono) simp_all
  then show "2 powr of_int (binade v) \<le> nearest v"
    by (simp only: n binade_times_ulp)
qed

lemma fixed_multiple:
  assumes "nearest z = z" "z \<noteq> 0"
  shows "z / ulp z = of_int (round_even (z / ulp z))"
proof -
  have u: "ulp z \<noteq> 0" using ulp_pos [of z] by simp
  from assms have "of_int (round_even (z / ulp z)) * ulp z = z" by (simp add: nearest_def)
  with u show ?thesis by (simp add: field_simps)
qed

lemma ulp_cong: "binade x = binade y \<Longrightarrow> ulp x = ulp y"
  by (simp add: ulp_def)

lemma nearest_ge_fixed:
  assumes "nearest z = z" "0 \<le> z" "z \<le> v"
  shows "z \<le> nearest v"
proof (cases "z = 0")
  case True
  with assms nearest_nonneg(1) [of v] show ?thesis by simp
next
  case False
  with assms have z: "0 < z" and v: "0 < v" by simp_all
  have u: "0 < ulp v" by (rule ulp_pos)
  from binade_mono [OF z assms(3)] have "binade z = binade v \<or> binade z < binade v" by auto
  then show ?thesis
  proof
    assume e: "binade z = binade v"
    then have uu: "ulp z = ulp v" by (rule ulp_cong)
    from fixed_multiple [OF assms(1) False]
    have m: "z / ulp v = of_int (round_even (z / ulp v))" by (simp only: uu)
    from assms(3) u have "z / ulp v \<le> v / ulp v" by (simp add: divide_right_mono)
    with m have "of_int (round_even (z / ulp v)) \<le> v / ulp v" by simp
    then have "round_even (z / ulp v) \<le> round_even (v / ulp v)" by (rule round_even_ge)
    then have "(of_int (round_even (z / ulp v)) :: real) \<le> of_int (round_even (v / ulp v))"
      by (simp only: of_int_le_iff)
    then have "of_int (round_even (z / ulp v)) * ulp v \<le> of_int (round_even (v / ulp v)) * ulp v"
      using u by (intro mult_right_mono) simp_all
    moreover have "of_int (round_even (z / ulp v)) * ulp v = z" using m u by (simp add: field_simps)
    ultimately show ?thesis using v by (simp add: nearest_def)
  next
    assume l: "binade z < binade v"
    with binade_lower [of z] have "- 1022 < binade v" by linarith
    from nearest_in_binade(2) [OF v this] have a: "2 powr of_int (binade v) \<le> nearest v" .
    from l have "real_of_int (binade z) + 1 \<le> of_int (binade v)" by linarith
    then have "(2::real) powr (of_int (binade z) + 1) \<le> 2 powr of_int (binade v)"
      by (intro powr_mono) simp_all
    with below_next_binade [OF z] a show ?thesis by linarith
  qed
qed

lemma nearest_le_fixed:
  assumes "nearest z = z" "0 \<le> v" "v \<le> z"
  shows "nearest v \<le> z"
proof (cases "v = 0")
  case True
  with assms show ?thesis by simp
next
  case False
  with assms have v: "0 < v" and z: "0 < z" by simp_all
  have u: "0 < ulp v" by (rule ulp_pos)
  from binade_mono [OF v assms(3)] have "binade v = binade z \<or> binade v < binade z" by auto
  then show ?thesis
  proof
    assume e: "binade v = binade z"
    then have uu: "ulp z = ulp v" by (simp add: ulp_def)
    from z have "z \<noteq> 0" by simp
    from fixed_multiple [OF assms(1) this]
    have m: "z / ulp v = of_int (round_even (z / ulp v))" by (simp only: uu)
    from assms(3) u have "v / ulp v \<le> z / ulp v" by (simp add: divide_right_mono)
    with m have "v / ulp v \<le> of_int (round_even (z / ulp v))" by simp
    then have "round_even (v / ulp v) \<le> round_even (z / ulp v)" by (rule round_even_le)
    then have "(of_int (round_even (v / ulp v)) :: real) \<le> of_int (round_even (z / ulp v))"
      by (simp only: of_int_le_iff)
    then have "of_int (round_even (v / ulp v)) * ulp v \<le> of_int (round_even (z / ulp v)) * ulp v"
      using u by (intro mult_right_mono) simp_all
    moreover have "of_int (round_even (z / ulp v)) * ulp v = z" using m u by (simp add: field_simps)
    ultimately show ?thesis using v by (simp add: nearest_def)
  next
    assume l: "binade v < binade z"
    with binade_lower [of v] have "- 1022 < binade z" by linarith
    from above_binade [OF z this] have a: "2 powr of_int (binade z) \<le> z" .
    from l have "real_of_int (binade v) + 1 \<le> of_int (binade z)" by linarith
    then have "(2::real) powr (of_int (binade v) + 1) \<le> 2 powr of_int (binade z)"
      by (intro powr_mono) simp_all
    with nearest_in_binade(1) [OF v] a show ?thesis by linarith
  qed
qed

lemma nearest_idem:
  assumes "0 \<le> v"
  shows "nearest (nearest v) = nearest v"
proof (cases "nearest v = 0")
  case True
  then show ?thesis by simp
next
  case False
  then have v0: "v \<noteq> 0" by auto
  with assms have v: "0 < v" by simp
  define n where "n = round_even (v / ulp v)"
  have u: "0 < ulp v" by (rule ulp_pos)
  have r: "nearest v = of_int n * ulp v" using v0 by (simp add: nearest_def n_def)
  from nearest_nonneg(1) [OF assms] False have rpos: "0 < nearest v" by simp
  have nle: "n \<le> 2 ^ 53" unfolding n_def by (rule round_even_in_binade(1) [OF v])
  have below: "nearest v \<le> 2 powr (of_int (binade v) + 1)" by (rule nearest_in_binade(1) [OF v])
  show ?thesis
  proof (cases "n = 2 ^ 53")
    case True
    then have top: "nearest v = 2 powr (of_int (binade v) + 1)"
      using next_binade_times_ulp [of v] by (simp add: r)
    have b: "binade (nearest v) = binade v + 1"
    proof (rule binade_eqI)
      show "2 powr of_int (binade v + 1) \<le> \<bar>nearest v\<bar>" by (simp add: top add.commute)
      have "(2::real) powr (of_int (binade v) + 1) < 2 powr (of_int (binade v + 1) + 1)"
        by (intro powr_less_mono) simp_all
      then show "\<bar>nearest v\<bar> < 2 powr (of_int (binade v + 1) + 1)" by (simp add: top)
      show "- 1022 \<le> binade v + 1" using binade_lower [of v] by simp
    qed
    have "of_int (2 ^ 52) * ulp (nearest v) = 2 powr of_int (binade (nearest v))"
      by (rule binade_times_ulp)
    also have "\<dots> = 2 powr of_int (binade v + 1)" by (simp only: b)
    also have "\<dots> = nearest v" by (simp add: top add.commute)
    finally have m: "of_int (2 ^ 52) * ulp (nearest v) = nearest v" .
    have "ulp (nearest v) \<noteq> 0" using ulp_pos [of "nearest v"] by simp
    with m have "nearest v / ulp (nearest v) = of_int (2 ^ 52)" by (simp add: field_simps)
    then have "round_even (nearest v / ulp (nearest v)) = 2 ^ 52"
      by (simp only: round_even_of_int)
    with False m show ?thesis by (simp add: nearest_def [of "nearest v"])
  next
    case nlt: False
    with nle have "n < 2 ^ 53" by simp
    then have "(of_int n :: real) < of_int (2 ^ 53)" by (simp only: of_int_less_iff)
    then have "of_int n * ulp v < of_int (2 ^ 53) * ulp v"
      using u by (intro mult_strict_right_mono) simp_all
    then have lt: "nearest v < 2 powr (of_int (binade v) + 1)"
      by (simp only: r next_binade_times_ulp)
    have b: "binade (nearest v) = binade v"
    proof (cases "- 1022 < binade v")
      case True
      from nearest_in_binade(2) [OF v True] lt rpos binade_lower [of v] show ?thesis
        by (intro binade_eqI) simp_all
    next
      case F: False
      with binade_lower [of v] have e: "binade v = - 1022" by simp
      from rpos lt have "binade (nearest v) \<le> binade v"
        by (intro binade_le) (simp_all add: e)
      with binade_lower [of "nearest v"] e show ?thesis by simp
    qed
    then have uu: "ulp (nearest v) = ulp v" by (rule ulp_cong)
    have "nearest v / ulp v = of_int n" using u by (simp add: r)
    then have re: "round_even (nearest v / ulp v) = n" by (simp only: round_even_of_int)
    have "nearest (nearest v)
            = of_int (round_even (nearest v / ulp (nearest v))) * ulp (nearest v)"
      using False by (rule nearest_nonzero)
    also have "\<dots> = of_int (round_even (nearest v / ulp v)) * ulp v" by (simp only: uu)
    also have "\<dots> = of_int n * ulp v" by (simp only: re)
    also have "\<dots> = nearest v" by (simp only: r)
    finally show ?thesis .
  qed
qed


subsection \<open>round64\<close>

lemma nearest_abs_le: "\<bar>nearest x\<bar> \<le> 2 * \<bar>x\<bar>"
proof (cases "0 \<le> x")
  case True
  with nearest_nonneg [OF True] show ?thesis by simp
next
  case False
  then have "x \<le> 0" by simp
  from nearest_nonpos [OF this] False show ?thesis by simp
qed

lemma round64_bounded: "\<bar>x\<bar> < 2 ^ 1023 \<Longrightarrow> round64 x = Num (nearest x)"
proof -
  assume "\<bar>x\<bar> < 2 ^ 1023"
  with nearest_abs_le [of x] have "\<bar>nearest x\<bar> < 2 ^ 1024" by simp
  then have "nearest x < 2 ^ 1024" "- (2 ^ 1024) < nearest x" by linarith+
  then show ?thesis by (simp add: round64_def Let_def)
qed

lemma round64_small: "\<bar>x\<bar> \<le> 4 \<Longrightarrow> round64 x = Num (nearest x)"
proof -
  assume "\<bar>x\<bar> \<le> 4"
  moreover have "(4::real) < 2 ^ 1023" by simp
  ultimately have "\<bar>x\<bar> < 2 ^ 1023" by linarith
  then show ?thesis by (rule round64_bounded)
qed

lemma is_double_fixed: "is_double z \<Longrightarrow> nearest z = z"
  by (auto simp: is_double_def round64_def Let_def split: if_splits)

lemma is_double_nearest: "0 \<le> v \<Longrightarrow> v \<le> 2 \<Longrightarrow> is_double (nearest v)"
proof -
  assume v: "0 \<le> v" "v \<le> 2"
  with nearest_nonneg [OF v(1)] have "\<bar>nearest v\<bar> \<le> 4" by simp
  from round64_small [OF this] nearest_idem [OF v(1)] show ?thesis by (simp add: is_double_def)
qed

subsection \<open>Evaluating nearest\<close>

lemma round_even_tie: "even n \<Longrightarrow> round_even (of_int n + 1 / 2) = n"
proof -
  assume n: "even n"
  have "\<lfloor>(of_int n :: real) + 1 / 2\<rfloor> = n" by linarith
  with n show ?thesis by (simp add: round_even_def Let_def)
qed

lemma nearest_tie_small:
  assumes "1 / 2 ^ k \<le> \<bar>x\<bar>" "\<bar>x\<bar> < 2 / 2 ^ k" "k \<le> 1022"
    and "x * 2 ^ (k + 52) = of_int n + 1 / 2" "even n"
  shows "nearest x = of_int n / 2 ^ (k + 52)"
proof -
  have p: "(2::real) powr of_int (- int k) = 1 / 2 ^ k"
    by (simp add: powr_minus_divide powr_realpow)
  have "(2::real) powr (of_int (- int k) + 1) = 2 powr of_int (- int k) * 2 powr 1"
    by (rule powr_add)
  then have q: "(2::real) powr (of_int (- int k) + 1) = 2 / 2 ^ k"
    unfolding p by simp
  have b: "binade x = - int k"
  proof (rule binade_eqI)
    show "2 powr of_int (- int k) \<le> \<bar>x\<bar>" unfolding p by (rule assms(1))
    show "\<bar>x\<bar> < 2 powr (of_int (- int k) + 1)" unfolding q by (rule assms(2))
    show "- 1022 \<le> - int k" using assms(3) by simp
  qed
  have "ulp x = 2 powr (- (real k + 52))" by (simp add: ulp_def b)
  also have "\<dots> = 2 powr (- real (k + 52))" by simp
  also have "\<dots> = 1 / 2 ^ (k + 52)" by (simp only: powr_minus_divide powr_realpow zero_less_numeral)
  finally have u: "ulp x = 1 / 2 ^ (k + 52)" .
  have "0 < (1::real) / 2 ^ k" by simp
  from less_le_trans [OF this assms(1)] have "0 < \<bar>x\<bar>" .
  then have x: "x \<noteq> 0" by simp
  have "x / ulp x = of_int n + 1 / 2" using assms(4) by (simp add: u)
  then have "round_even (x / ulp x) = n" using round_even_tie [OF assms(5)] by simp
  with x show ?thesis by (simp add: nearest_def u)
qed

lemma nearest_eval_small:
  assumes "1 / 2 ^ k \<le> \<bar>x\<bar>" "\<bar>x\<bar> < 2 / 2 ^ k" "k \<le> 1022"
    and "of_int n - 1 / 2 < x * 2 ^ (k + 52)" "x * 2 ^ (k + 52) < of_int n + 1 / 2"
  shows "nearest x = of_int n / 2 ^ (k + 52)"
proof -
  have p: "(2::real) powr of_int (- int k) = 1 / 2 ^ k"
    by (simp add: powr_minus_divide powr_realpow)
  have "(2::real) powr (of_int (- int k) + 1) = 2 powr of_int (- int k) * 2 powr 1"
    by (rule powr_add)
  then have q: "(2::real) powr (of_int (- int k) + 1) = 2 / 2 ^ k"
    unfolding p by simp
  have b: "binade x = - int k"
  proof (rule binade_eqI)
    show "2 powr of_int (- int k) \<le> \<bar>x\<bar>" unfolding p by (rule assms(1))
    show "\<bar>x\<bar> < 2 powr (of_int (- int k) + 1)" unfolding q by (rule assms(2))
    show "- 1022 \<le> - int k" using assms(3) by simp
  qed
  have "ulp x = 2 powr (- (real k + 52))" by (simp add: ulp_def b)
  also have "\<dots> = 2 powr (- real (k + 52))" by simp
  also have "\<dots> = 1 / 2 ^ (k + 52)" by (simp only: powr_minus_divide powr_realpow zero_less_numeral)
  finally have u: "ulp x = 1 / 2 ^ (k + 52)" .
  have "0 < (1::real) / 2 ^ k" by simp
  from less_le_trans [OF this assms(1)] have "0 < \<bar>x\<bar>" .
  then have x: "x \<noteq> 0" by simp
  have "round_even (x / ulp x) = n"
    by (rule round_even_eqI) (use assms in \<open>simp_all add: u\<close>)
  with x show ?thesis by (simp add: nearest_def u)
qed

lemma nearest_eval_big:
  assumes "2 ^ k \<le> \<bar>x\<bar>" "\<bar>x\<bar> < 2 * 2 ^ k" "k \<le> 52"
    and "of_int n - 1 / 2 < x * 2 ^ (52 - k)" "x * 2 ^ (52 - k) < of_int n + 1 / 2"
  shows "nearest x = of_int n / 2 ^ (52 - k)"
proof -
  have p: "(2::real) powr of_int (int k) = 2 ^ k"
    by (simp add: powr_realpow)
  have "(2::real) powr (of_int (int k) + 1) = 2 powr of_int (int k) * 2 powr 1"
    by (rule powr_add)
  then have q: "(2::real) powr (of_int (int k) + 1) = 2 * 2 ^ k"
    unfolding p by simp
  have b: "binade x = int k"
  proof (rule binade_eqI)
    show "2 powr of_int (int k) \<le> \<bar>x\<bar>" unfolding p by (rule assms(1))
    show "\<bar>x\<bar> < 2 powr (of_int (int k) + 1)" unfolding q by (rule assms(2))
    show "- 1022 \<le> int k" by simp
  qed
  have "real_of_int (int k) - 52 = - real (52 - k)" using assms(3) by simp
  then have "ulp x = 2 powr (- real (52 - k))" by (simp only: ulp_def b)
  also have "\<dots> = 1 / 2 ^ (52 - k)" by (simp only: powr_minus_divide powr_realpow zero_less_numeral)
  finally have u: "ulp x = 1 / 2 ^ (52 - k)" .
  have "0 < (2::real) ^ k" by simp
  from less_le_trans [OF this assms(1)] have "0 < \<bar>x\<bar>" .
  then have x: "x \<noteq> 0" by simp
  have "round_even (x / ulp x) = n"
    by (rule round_even_eqI) (use assms in \<open>simp_all add: u\<close>)
  with x show ?thesis by (simp add: nearest_def u)
qed

lemma nearest_008: "nearest 0.08 = 5764607523034235 / 2 ^ 56"
  using nearest_eval_small [of 4 "0.08" 5764607523034235] by simp

lemma nearest_1: "nearest 1 = 1"
  using nearest_eval_big [of 0 1 "2 ^ 52"] by simp


subsection \<open>One smoothing step\<close>

lemma smooth_up:
  assumes d: "nearest d = d" and t: "nearest t = t" and r: "0 \<le> d" "d \<le> t" "t \<le> 1"
  shows "d \<le> smooth t d \<and> smooth t d \<le> t \<and> nearest (smooth t d) = smooth t d
    \<and> \<bar>smooth t d - (d + (t - d) * 0.08)\<bar> \<le> 1 / 2 ^ 51"
proof -
  define c :: real where "c = 5764607523034235 / 2 ^ 56"
  define w where "w = t - d"
  define y where "y = nearest w"
  define x where "x = nearest (y * c)"
  have s: "smooth t d = nearest (d + x)"
    by (simp only: smooth_def x_def y_def w_def c_def nearest_008)
  have c: "0 \<le> c" "4 * c \<le> 1" "\<bar>c - 0.08\<bar> \<le> 1 / 2 ^ 58" "c \<le> 1 / 4"
    by (simp_all add: c_def)
  have w: "0 \<le> w" "w \<le> 1" using r by (simp_all add: w_def)
  then have "\<bar>w\<bar> < 2" by simp
  from nearest_close_small [OF this] have yw: "\<bar>y - w\<bar> \<le> 1 / 2 ^ 53" by (simp add: y_def)
  from nearest_nonneg [OF w(1)] have y: "0 \<le> y" "y \<le> 2 * w" by (simp_all add: y_def)
  have yc0: "0 \<le> y * c" using y(1) c(1) by simp
  have "w * (4 * c) \<le> w * 1" using c(2) w(1) by (rule mult_left_mono)
  then have "(2 * w) * c \<le> w / 2" by simp
  with mult_right_mono [OF y(2) c(1)] have yc: "y * c \<le> w / 2" by linarith
  with yc0 w have "\<bar>y * c\<bar> < 2" by simp
  from nearest_close_small [OF this] have xyc: "\<bar>x - y * c\<bar> \<le> 1 / 2 ^ 53" by (simp add: x_def)
  from nearest_nonneg [OF yc0] have x: "0 \<le> x" "x \<le> 2 * (y * c)" by (simp_all add: x_def)
  with yc have xw: "x \<le> w" by simp
  have dx: "0 \<le> d + x" "d \<le> d + x" "d + x \<le> t" using x(1) xw r by (simp_all add: w_def)
  have 1: "d \<le> smooth t d" unfolding s by (rule nearest_ge_fixed [OF d r(1) dx(2)])
  have 2: "smooth t d \<le> t" unfolding s by (rule nearest_le_fixed [OF t dx(1) dx(3)])
  have 3: "nearest (smooth t d) = smooth t d" unfolding s by (rule nearest_idem [OF dx(1)])
  have "\<bar>d + x\<bar> < 2" using dx r by simp
  from nearest_close_small [OF this] have e1: "\<bar>smooth t d - (d + x)\<bar> \<le> 1 / 2 ^ 53" by (simp add: s)
  have "\<bar>(y - w) * c\<bar> = \<bar>y - w\<bar> * c" using c(1) by (simp add: abs_mult)
  also have "\<dots> \<le> (1 / 2 ^ 53) * (1 / 4)" using yw c(4) c(1) by (intro mult_mono) simp_all
  finally have e3: "\<bar>(y - w) * c\<bar> \<le> 1 / 2 ^ 55" by simp
  have "\<bar>w * (c - 0.08)\<bar> = w * \<bar>c - 0.08\<bar>" using w(1) by (simp add: abs_mult)
  also have "\<dots> \<le> 1 * (1 / 2 ^ 58)" using w c(3) by (intro mult_mono) simp_all
  finally have e4: "\<bar>w * (c - 0.08)\<bar> \<le> 1 / 2 ^ 58" by simp
  have "smooth t d - (d + (t - d) * 0.08)
      = (smooth t d - (d + x)) + (x - y * c) + (y - w) * c + w * (c - 0.08)"
    by (simp add: w_def algebra_simps)
  then have "\<bar>smooth t d - (d + (t - d) * 0.08)\<bar>
      \<le> \<bar>smooth t d - (d + x)\<bar> + \<bar>x - y * c\<bar> + \<bar>(y - w) * c\<bar> + \<bar>w * (c - 0.08)\<bar>"
    by linarith
  also have "\<dots> \<le> 1 / 2 ^ 53 + 1 / 2 ^ 53 + 1 / 2 ^ 55 + 1 / 2 ^ 58"
    using e1 xyc e3 e4 by linarith
  also have "\<dots> \<le> 1 / 2 ^ 51" by simp
  finally have 4: "\<bar>smooth t d - (d + (t - d) * 0.08)\<bar> \<le> 1 / 2 ^ 51" .
  from 1 2 3 4 show ?thesis by simp
qed

lemma smooth_down:
  assumes d: "nearest d = d" and t: "nearest t = t" and r: "0 \<le> t" "t \<le> d" "d \<le> 1"
  shows "t \<le> smooth t d \<and> smooth t d \<le> d \<and> nearest (smooth t d) = smooth t d
    \<and> \<bar>smooth t d - (d + (t - d) * 0.08)\<bar> \<le> 1 / 2 ^ 51"
proof -
  define c :: real where "c = 5764607523034235 / 2 ^ 56"
  define w where "w = t - d"
  define y where "y = nearest w"
  define x where "x = nearest (y * c)"
  have s: "smooth t d = nearest (d + x)"
    by (simp only: smooth_def x_def y_def w_def c_def nearest_008)
  have c: "0 \<le> c" "4 * c \<le> 1" "\<bar>c - 0.08\<bar> \<le> 1 / 2 ^ 58" "c \<le> 1 / 4"
    by (simp_all add: c_def)
  have w: "w \<le> 0" "- 1 \<le> w" using r by (simp_all add: w_def)
  then have "\<bar>w\<bar> < 2" by simp
  from nearest_close_small [OF this] have yw: "\<bar>y - w\<bar> \<le> 1 / 2 ^ 53" by (simp add: y_def)
  from nearest_nonpos [OF w(1)] have y: "y \<le> 0" "2 * w \<le> y" by (simp_all add: y_def)
  have yc0: "y * c \<le> 0" using y(1) c(1) by (simp add: mult_nonpos_nonneg)
  have "(- w) * (4 * c) \<le> (- w) * 1" using c(2) w(1) by (intro mult_left_mono) simp_all
  then have "w / 2 \<le> (2 * w) * c" by simp
  also have "\<dots> \<le> y * c" using y(2) c(1) by (rule mult_right_mono)
  finally have yc: "w / 2 \<le> y * c" .
  with yc0 w have "\<bar>y * c\<bar> < 2" by simp
  from nearest_close_small [OF this] have xyc: "\<bar>x - y * c\<bar> \<le> 1 / 2 ^ 53" by (simp add: x_def)
  from nearest_nonpos [OF yc0] have x: "x \<le> 0" "2 * (y * c) \<le> x" by (simp_all add: x_def)
  with yc have xw: "w \<le> x" by simp
  have dx: "0 \<le> d + x" "d + x \<le> d" "t \<le> d + x" using x(1) xw r by (simp_all add: w_def)
  have d0: "0 \<le> d" using r by simp
  have 1: "t \<le> smooth t d" unfolding s by (rule nearest_ge_fixed [OF t r(1) dx(3)])
  have 2: "smooth t d \<le> d" unfolding s by (rule nearest_le_fixed [OF d dx(1) dx(2)])
  have 3: "nearest (smooth t d) = smooth t d" unfolding s by (rule nearest_idem [OF dx(1)])
  have "\<bar>d + x\<bar> < 2" using dx r by simp
  from nearest_close_small [OF this] have e1: "\<bar>smooth t d - (d + x)\<bar> \<le> 1 / 2 ^ 53" by (simp add: s)
  have "\<bar>(y - w) * c\<bar> = \<bar>y - w\<bar> * c" using c(1) by (simp add: abs_mult)
  also have "\<dots> \<le> (1 / 2 ^ 53) * (1 / 4)" using yw c(4) c(1) by (intro mult_mono) simp_all
  finally have e3: "\<bar>(y - w) * c\<bar> \<le> 1 / 2 ^ 55" by simp
  have "\<bar>w * (c - 0.08)\<bar> = (- w) * \<bar>c - 0.08\<bar>" using w(1) by (simp add: abs_mult)
  also have "\<dots> \<le> 1 * (1 / 2 ^ 58)" using w c(3) by (intro mult_mono) simp_all
  finally have e4: "\<bar>w * (c - 0.08)\<bar> \<le> 1 / 2 ^ 58" by simp
  have "smooth t d - (d + (t - d) * 0.08)
      = (smooth t d - (d + x)) + (x - y * c) + (y - w) * c + w * (c - 0.08)"
    by (simp add: w_def algebra_simps)
  then have "\<bar>smooth t d - (d + (t - d) * 0.08)\<bar>
      \<le> \<bar>smooth t d - (d + x)\<bar> + \<bar>x - y * c\<bar> + \<bar>(y - w) * c\<bar> + \<bar>w * (c - 0.08)\<bar>"
    by linarith
  also have "\<dots> \<le> 1 / 2 ^ 53 + 1 / 2 ^ 53 + 1 / 2 ^ 55 + 1 / 2 ^ 58"
    using e1 xyc e3 e4 by linarith
  also have "\<dots> \<le> 1 / 2 ^ 51" by simp
  finally have 4: "\<bar>smooth t d - (d + (t - d) * 0.08)\<bar> \<le> 1 / 2 ^ 51" .
  from 1 2 3 4 show ?thesis by simp
qed

lemma smooth_first: "smooth 1 0 = 5764607523034235 / 2 ^ 56"
proof -
  have "nearest (5764607523034235 / 2 ^ 56) = of_int 5764607523034235 / 2 ^ (4 + 52)"
    by (rule nearest_eval_small) simp_all
  then have n: "nearest (5764607523034235 / 2 ^ 56) = 5764607523034235 / 2 ^ 56" by simp
  show ?thesis by (simp only: smooth_def nearest_008 diff_zero nearest_1 mult_1 n add_0)
qed

lemma smooth_stall: "smooth 1 (1 - 6 / 2 ^ 53) = 1 - 6 / 2 ^ 53"
proof -
  have "nearest (6 / 2 ^ 53) = of_int 6755399441055744 / 2 ^ (51 + 52)"
    by (rule nearest_eval_small) simp_all
  then have a: "nearest (6 / 2 ^ 53) = 6 / 2 ^ 53" by simp
  have "nearest (6 / 2 ^ 53 * (5764607523034235 / 2 ^ 56))
      = of_int 8646911284551352 / 2 ^ (55 + 52)"
    by (rule nearest_tie_small) simp_all
  then have b: "nearest (6 / 2 ^ 53 * (5764607523034235 / 2 ^ 56)) = 4323455642275676 / 2 ^ 106"
    by simp
  have "nearest (1 - 6 / 2 ^ 53 + 4323455642275676 / 2 ^ 106)
      = of_int 9007199254740986 / 2 ^ (1 + 52)"
    by (rule nearest_eval_small) simp_all
  then have c: "nearest (1 - 6 / 2 ^ 53 + 4323455642275676 / 2 ^ 106) = 1 - 6 / 2 ^ 53"
    by simp
  have e: "(1::real) - (1 - 6 / 2 ^ 53) = 6 / 2 ^ 53" by simp
  show ?thesis by (simp only: smooth_def nearest_008 e a b c)
qed


subsection \<open>Doubles and literals\<close>

lemma round64_0 [simp]: "round64 0 = Num 0"
  by (simp add: round64_def)

lemma is_doubleI: "nearest z = z \<Longrightarrow> \<bar>z\<bar> \<le> 4 \<Longrightarrow> is_double z"
  using round64_small [of z] by (simp add: is_double_def)

lemma is_double_0: "is_double 0"
  by (simp add: is_double_def)

lemma is_double_1: "is_double 1"
  by (rule is_doubleI) (simp_all add: nearest_1)

lemma literal_0_08: "literal 0.08 = Num (5764607523034235 / 2 ^ 56)"
proof -
  have "\<bar>0.08 :: real\<bar> \<le> 4" by simp
  from round64_small [OF this] show ?thesis by (simp only: literal_def nearest_008)
qed

lemma literal_0_3: "literal 0.3 = Num (5404319552844595 / 2 ^ 54)"
proof -
  have "nearest 0.3 = of_int 5404319552844595 / 2 ^ (2 + 52)"
    by (rule nearest_eval_small) simp_all
  then have n: "nearest 0.3 = 5404319552844595 / 2 ^ 54" by simp
  have "\<bar>0.3 :: real\<bar> \<le> 4" by simp
  from round64_small [OF this] show ?thesis by (simp only: literal_def n)
qed

lemma literal_0_2: "literal 0.2 = Num (3602879701896397 / 2 ^ 54)"
proof -
  have "nearest 0.2 = of_int 7205759403792794 / 2 ^ (3 + 52)"
    by (rule nearest_eval_small) simp_all
  then have n: "nearest 0.2 = 3602879701896397 / 2 ^ 54" by simp
  have "\<bar>0.2 :: real\<bar> \<le> 4" by simp
  from round64_small [OF this] show ?thesis by (simp only: literal_def n)
qed

lemmas literal_simps = literal_0_08 [simplified] literal_0_3 [simplified] literal_0_2 [simplified]

subsection \<open>Many smoothing steps\<close>

lemma smooth_step:
  assumes "is_double t" "is_double d" "0 \<le> t" "t \<le> 1" "0 \<le> d" "d \<le> 1"
  shows "is_double (smooth t d) \<and> min d t \<le> smooth t d \<and> smooth t d \<le> max d t
    \<and> \<bar>smooth t d - (d + (t - d) * 0.08)\<bar> \<le> 1 / 2 ^ 51"
proof (cases "d \<le> t")
  case True
  from smooth_up [OF is_double_fixed [OF assms(2)] is_double_fixed [OF assms(1)] assms(5) True assms(4)]
  have u: "d \<le> smooth t d" "smooth t d \<le> t" "nearest (smooth t d) = smooth t d"
    "\<bar>smooth t d - (d + (t - d) * 0.08)\<bar> \<le> 1 / 2 ^ 51" by simp_all
  from u(1,2) assms have "\<bar>smooth t d\<bar> \<le> 4" by simp
  from is_doubleI [OF u(3) this] u True show ?thesis by (simp add: min_def max_def)
next
  case False
  then have td: "t \<le> d" by simp
  from smooth_down [OF is_double_fixed [OF assms(2)] is_double_fixed [OF assms(1)] assms(3) td assms(6)]
  have u: "t \<le> smooth t d" "smooth t d \<le> d" "nearest (smooth t d) = smooth t d"
    "\<bar>smooth t d - (d + (t - d) * 0.08)\<bar> \<le> 1 / 2 ^ 51" by simp_all
  from u(1,2) assms have "\<bar>smooth t d\<bar> \<le> 4" by simp
  from is_doubleI [OF u(3) this] u False show ?thesis by (simp add: min_def max_def)
qed

lemma smooth_n_props:
  assumes "is_double t" "0 \<le> t" "t \<le> 1"
  shows "is_double d \<Longrightarrow> 0 \<le> d \<Longrightarrow> d \<le> 1 \<Longrightarrow>
    is_double (smooth_n n t d) \<and> min d t \<le> smooth_n n t d \<and> smooth_n n t d \<le> max d t
    \<and> \<bar>smooth_n n t d - (t - (t - d) * 0.92 ^ n)\<bar> \<le> (1 - 0.92 ^ n) * (25 / 2) / 2 ^ 51"
proof (induction n arbitrary: d)
  case 0
  then show ?case by simp
next
  case (Suc n)
  define d1 where "d1 = smooth t d"
  define q where "q = smooth_n n t d1"
  define r :: real where "r = 0.92 ^ n"
  from smooth_step [OF assms(1) Suc.prems(1) assms(2,3) Suc.prems(2,3)]
  have s: "is_double d1" "min d t \<le> d1" "d1 \<le> max d t"
    "\<bar>d1 - (d + (t - d) * 0.08)\<bar> \<le> 1 / 2 ^ 51" by (simp_all add: d1_def)
  from s(2,3) assms Suc.prems have b: "0 \<le> d1" "d1 \<le> 1" by (simp_all add: min_def max_def split: if_splits)
  from Suc.IH [OF s(1) b]
  have i: "is_double q" "min d1 t \<le> q" "q \<le> max d1 t"
    "\<bar>q - (t - (t - d1) * r)\<bar> \<le> (1 - r) * (25 / 2) / 2 ^ 51" by (simp_all add: q_def r_def)
  have r: "0 \<le> r" "r \<le> 1" by (simp_all add: r_def power_le_one)
  from s(2,3) i(2,3) have m: "min d t \<le> q" "q \<le> max d t" by (simp_all add: min_def max_def split: if_splits)
  define e where "e = d1 - (d + (t - d) * 0.08)"
  have e: "\<bar>e\<bar> \<le> 1 / 2 ^ 51" using s(4) by (simp add: e_def)
  have "\<bar>e * r\<bar> = \<bar>e\<bar> * r" using r(1) by (simp add: abs_mult)
  also have "\<dots> \<le> (1 / 2 ^ 51) * r" using e r(1) by (rule mult_right_mono)
  finally have er: "\<bar>e * r\<bar> \<le> r / 2 ^ 51" by simp
  have "(t - d) * (0.92 * r) = (t - (d + (t - d) * 0.08)) * r"
    by (simp add: field_simps)
  then have "q - (t - (t - d) * (0.92 * r)) = (q - (t - (t - d1) * r)) + e * r"
    by (simp only: e_def) (simp add: algebra_simps)
  then have "\<bar>q - (t - (t - d) * (0.92 * r))\<bar> = \<bar>(q - (t - (t - d1) * r)) + e * r\<bar>"
    by (rule arg_cong)
  also have "\<dots> \<le> \<bar>q - (t - (t - d1) * r)\<bar> + \<bar>e * r\<bar>"
    by (rule abs_triangle_ineq)
  also have "\<dots> \<le> (1 - r) * (25 / 2) / 2 ^ 51 + r / 2 ^ 51" using i(4) er by linarith
  also have "\<dots> = (1 - 0.92 * r) * (25 / 2) / 2 ^ 51" by (simp add: field_simps)
  finally have "\<bar>q - (t - (t - d) * (0.92 * r))\<bar> \<le> (1 - 0.92 * r) * (25 / 2) / 2 ^ 51" .
  with i(1) m show ?case by (simp add: q_def d1_def r_def)
qed

lemma smooth_n_close:
  assumes "is_double t" "0 \<le> t" "t \<le> 1" "is_double d" "0 \<le> d" "d \<le> 1"
  shows "\<bar>smooth_n n t d - (t - (t - d) * 0.92 ^ n)\<bar> \<le> 1 / 2 ^ 47"
proof -
  from smooth_n_props [OF assms, of n]
  have "\<bar>smooth_n n t d - (t - (t - d) * 0.92 ^ n)\<bar> \<le> (1 - 0.92 ^ n) * (25 / 2) / 2 ^ 51"
    by simp
  also have "\<dots> \<le> (1 - 0) * (25 / 2) / 2 ^ 51"
    by (intro divide_right_mono mult_right_mono diff_left_mono) simp_all
  also have "\<dots> \<le> 1 / 2 ^ 47" by simp
  finally show ?thesis .
qed

lemma smooth_n_stall: "smooth_n n 1 (1 - 6 / 2 ^ 53) = 1 - 6 / 2 ^ 53"
  by (induction n) (simp_all only: smooth_n.simps smooth_stall)

lemma round_even_tie_up: "even m \<Longrightarrow> round_even (of_int m - 1 / 2) = m"
proof -
  assume m: "even m"
  have "\<lfloor>(of_int m :: real) - 1 / 2\<rfloor> = m - 1" by linarith
  with m show ?thesis by (simp add: round_even_def Let_def)
qed

lemma nearest_tie_up_small:
  assumes "1 / 2 ^ k \<le> \<bar>x\<bar>" "\<bar>x\<bar> < 2 / 2 ^ k" "k \<le> 1022"
    and "x * 2 ^ (k + 52) = of_int m - 1 / 2" "even m"
  shows "nearest x = of_int m / 2 ^ (k + 52)"
proof -
  have p: "(2::real) powr of_int (- int k) = 1 / 2 ^ k"
    by (simp add: powr_minus_divide powr_realpow)
  have "(2::real) powr (of_int (- int k) + 1) = 2 powr of_int (- int k) * 2 powr 1"
    by (rule powr_add)
  then have q: "(2::real) powr (of_int (- int k) + 1) = 2 / 2 ^ k"
    unfolding p by simp
  have b: "binade x = - int k"
  proof (rule binade_eqI)
    show "2 powr of_int (- int k) \<le> \<bar>x\<bar>" unfolding p by (rule assms(1))
    show "\<bar>x\<bar> < 2 powr (of_int (- int k) + 1)" unfolding q by (rule assms(2))
    show "- 1022 \<le> - int k" using assms(3) by simp
  qed
  have "ulp x = 2 powr (- (real k + 52))" by (simp add: ulp_def b)
  also have "\<dots> = 2 powr (- real (k + 52))" by simp
  also have "\<dots> = 1 / 2 ^ (k + 52)" by (simp only: powr_minus_divide powr_realpow zero_less_numeral)
  finally have u: "ulp x = 1 / 2 ^ (k + 52)" .
  have "0 < (1::real) / 2 ^ k" by simp
  from less_le_trans [OF this assms(1)] have "0 < \<bar>x\<bar>" .
  then have x: "x \<noteq> 0" by simp
  have "x / ulp x = of_int m - 1 / 2" using assms(4) by (simp add: u)
  then have "round_even (x / ulp x) = m" using round_even_tie_up [OF assms(5)] by simp
  with x show ?thesis by (simp add: nearest_def u)
qed

lemma smooth_second:
  "smooth 1 (5764607523034235 / 2 ^ 56) = 2767011611056433 / 2 ^ 54"
proof -
  have "nearest (1 - 5764607523034235 / 2 ^ 56) = of_int 8286623314361713 / 2 ^ (1 + 52)"
    by (rule nearest_eval_small) simp_all
  then have a: "nearest (1 - 5764607523034235 / 2 ^ 56) = 8286623314361713 / 2 ^ 53" by simp
  have "nearest (8286623314361713 / 2 ^ 53 * (5764607523034235 / 2 ^ 56))
      = of_int 5303438921191496 / 2 ^ (4 + 52)"
    by (rule nearest_eval_small) simp_all
  then have b: "nearest (8286623314361713 / 2 ^ 53 * (5764607523034235 / 2 ^ 56))
      = 5303438921191496 / 2 ^ 56" by simp
  have "nearest (5764607523034235 / 2 ^ 56 + 5303438921191496 / 2 ^ 56)
      = of_int 5534023222112866 / 2 ^ (3 + 52)"
    by (rule nearest_tie_up_small) simp_all
  then have c: "nearest (5764607523034235 / 2 ^ 56 + 5303438921191496 / 2 ^ 56)
      = 2767011611056433 / 2 ^ 54" by simp
  show ?thesis by (simp only: smooth_def nearest_008 a b c)
qed

lemma smooth_n_two: "smooth_n (Suc (Suc 0)) 1 0 = 2767011611056433 / 2 ^ 54"
  by (simp only: smooth_n.simps smooth_first smooth_second)

subsection \<open>The smoothing step as the code computes it\<close>

lemma js_smooth:
  assumes "0 \<le> t" "t \<le> 1" "0 \<le> d" "d \<le> 1"
  shows "js_add (Num d) (js_mul (js_sub (Num t) (Num d)) (literal 0.08)) = Num (smooth t d)"
proof -
  define c :: real where "c = 5764607523034235 / 2 ^ 56"
  define y where "y = nearest (t - d)"
  define x where "x = nearest (y * c)"
  have c: "0 \<le> c" "c \<le> 1 / 4" by (simp_all add: c_def)
  have l: "literal 0.08 = Num c" by (simp only: literal_0_08 c_def)
  from assms have td: "\<bar>t - d\<bar> \<le> 1" by simp
  then have "\<bar>t - d\<bar> \<le> 4" by simp
  from round64_small [OF this] have a: "js_sub (Num t) (Num d) = Num y"
    by (simp add: js_sub_def y_def)
  from nearest_abs_le [of "t - d"] td have y: "\<bar>y\<bar> \<le> 2" by (simp add: y_def)
  have "\<bar>y * c\<bar> = \<bar>y\<bar> * c" using c(1) by (simp add: abs_mult)
  also have "\<dots> \<le> 2 * (1 / 4)" using y c by (intro mult_mono) simp_all
  finally have yc: "\<bar>y * c\<bar> \<le> 1 / 2" by simp
  then have "\<bar>y * c\<bar> \<le> 4" by simp
  from round64_small [OF this] have b: "js_mul (Num y) (Num c) = Num x"
    by (simp add: x_def)
  from nearest_abs_le [of "y * c"] yc have "\<bar>x\<bar> \<le> 1" by (simp add: x_def)
  with assms have "\<bar>d + x\<bar> \<le> 4" by simp
  from round64_small [OF this] have e: "js_add (Num d) (Num x) = Num (nearest (d + x))"
    by simp
  have s: "smooth t d = nearest (d + x)"
    by (simp only: smooth_def x_def y_def c_def nearest_008)
  show ?thesis by (simp only: l a b e s)
qed

lemma round64_1 [simp]: "round64 1 = Num 1"
  using is_double_1 by (simp add: is_double_def)

lemma round64_1200 [simp]: "round64 1200 = Num 1200"
proof -
  have "nearest 1200 = of_int (1200 * 2 ^ 42) / 2 ^ (52 - 10)"
    by (rule nearest_eval_big) simp_all
  then have "nearest 1200 = 1200" by simp
  moreover have "\<bar>1200 :: real\<bar> < 2 ^ 1023" by simp
  ultimately show ?thesis using round64_bounded [of 1200] by simp
qed

lemma js_div_1024_600: "js_div (Num 1024) (Num 600) = Num (7686143364045647 / 2 ^ 52)"
proof -
  have "nearest (1024 / 600) = of_int 7686143364045647 / 2 ^ (52 - 0)"
    by (rule nearest_eval_big) simp_all
  then have "nearest (1024 / 600) = 7686143364045647 / 2 ^ 52" by simp
  moreover have "\<bar>1024 / 600 :: real\<bar> \<le> 4" by simp
  ultimately show ?thesis using round64_small [of "1024 / 600"] by simp
qed

lemma js_div_512_600: "js_div (Num 512) (Num 600) = Num (7686143364045647 / 2 ^ 53)"
proof -
  have "nearest (512 / 600) = of_int 7686143364045647 / 2 ^ (1 + 52)"
    by (rule nearest_eval_small) simp_all
  then have "nearest (512 / 600) = 7686143364045647 / 2 ^ 53" by simp
  moreover have "\<bar>512 / 600 :: real\<bar> \<le> 4" by simp
  ultimately show ?thesis using round64_small [of "512 / 600"] by simp
qed

lemma round64_spin:
  "round64 (5404319552844595 / 2 ^ 60) = Num (5404319552844595 / 2 ^ 60)"
proof -
  have "nearest (5404319552844595 / 2 ^ 60) = of_int 5404319552844595 / 2 ^ (8 + 52)"
    by (rule nearest_eval_small) simp_all
  then have "nearest (5404319552844595 / 2 ^ 60) = 5404319552844595 / 2 ^ 60" by simp
  moreover have "\<bar>5404319552844595 / 2 ^ 60 :: real\<bar> \<le> 4" by simp
  ultimately show ?thesis using round64_small [of "5404319552844595 / 2 ^ 60"] by simp
qed

lemma is_double_stall: "is_double (1 - 6 / 2 ^ 53)"
proof -
  have "nearest (1 - 6 / 2 ^ 53) = of_int 9007199254740986 / 2 ^ (1 + 52)"
    by (rule nearest_eval_small) simp_all
  then have "nearest (1 - 6 / 2 ^ 53) = 1 - 6 / 2 ^ 53" by simp
  then show ?thesis by (rule is_doubleI) simp
qed

section \<open>Unfolding the constructors\<close>

lemmas construct_defs = new_scroll_def new_hover_def setupRenderer_scroll_def
  setupRenderer_hover_def
  setupScenes_def setupCamera_scroll_def setupCamera_hover_def new_scene_def
  loadModels_scrollA_def loadModels_hover_def loadModels_scrollB_def
  createPlaceholderModel_scroll_def createPlaceholderModel_hover_def add_model_def js_set_def
  onModelsLoaded_def requestAnimationFrame_def emit_def renderer_render_def scene_at_def
  set_aspect_def updateProjectionMatrix_def of_px_def Math_floor_half_div Let_def
  animate_step_def js_sub_def page_of_def spec_panels_def literal_simps Math_PI_def

section \<open>What render asks of the renderer\<close>

lemma render_scrollA_calls:
  "calls_of (render_scrollA pg) s =
     [SetScissorTest True, SetViewport (first_region (isMobile s) (innerWidth pg) (innerHeight pg)),
      SetScissor (first_region (isMobile s) (innerWidth pg) (innerHeight pg))]
     @ (if 0 < length (scenes s) then [Render (Some 0) (cam s)] else [])
     @ (if 1 < length (scenes s) then
          [SetViewport (second_region (isMobile s) (innerWidth pg) (innerHeight pg)),
           SetScissor (second_region (isMobile s) (innerWidth pg) (innerHeight pg)),
           Render (Some 1) (cam s)] else [])"
  by (simp add: calls_of_def render_scrollA_def Let_def renderer_render_def emit_def scene_at_def
      first_region_def second_region_def Math_floor_half_div)

lemma render_scrollB_calls:
  "calls_of (render_scrollB pg) s =
     [SetScissorTest True, SetViewport (first_region (isMobile s) (innerWidth pg) (innerHeight pg)),
      SetScissor (first_region (isMobile s) (innerWidth pg) (innerHeight pg))]
     @ (if 0 < length (scenes s) then
          [Render (Some 0) \<lparr>aspect = half_aspect (isMobile s) (innerWidth pg) (innerHeight pg),
             projAspect = half_aspect (isMobile s) (innerWidth pg) (innerHeight pg)\<rparr>] else [])
     @ (if 1 < length (scenes s) then
          [SetViewport (second_region (isMobile s) (innerWidth pg) (innerHeight pg)),
           SetScissor (second_region (isMobile s) (innerWidth pg) (innerHeight pg)),
           Render (Some 1) \<lparr>aspect = half_aspect (isMobile s) (innerWidth pg) (innerHeight pg),
             projAspect = half_aspect (isMobile s) (innerWidth pg) (innerHeight pg)\<rparr>] else [])"
proof (cases "isMobile s")
  case True
  then show ?thesis
    by (simp add: calls_of_def render_scrollB_def Let_def renderer_render_def emit_def scene_at_def
      first_region_def second_region_def Math_floor_half_div set_aspect_def
      updateProjectionMatrix_def half_aspect_def)
next
  case False
  then show ?thesis
    by (simp add: calls_of_def render_scrollB_def Let_def renderer_render_def emit_def scene_at_def
      first_region_def second_region_def Math_floor_half_div set_aspect_def
      updateProjectionMatrix_def half_aspect_def)
qed

lemma render_hover_calls:
  "calls_of (render_hover pg) s =
     [SetScissorTest True, SetViewport (first_region (isMobile s) (clientWidth pg) (clientHeight pg)),
      SetScissor (first_region (isMobile s) (clientWidth pg) (clientHeight pg)),
      Render (scene_at s 0) (cam s)]
     @ (if 1 < length (scenes s) then
          [SetViewport (second_region (isMobile s) (clientWidth pg) (clientHeight pg)),
           SetScissor (second_region (isMobile s) (clientWidth pg) (clientHeight pg)),
           Render (Some 1) (cam s)] else [])"
  by (simp add: calls_of_def render_hover_def Let_def renderer_render_def emit_def scene_at_def
      first_region_def second_region_def Math_floor_half_div)

lemma render_hover_throws:
  "draws_undefined (calls_of (render_hover pg) s) = (scenes s = [])"
  by (simp add: render_hover_calls scene_at_def)

section \<open>The instances the constructors build\<close>

lemma scrollA_at_eq:
  "scrollA_at w h =
     \<lparr>panels = spec_panels, loadingEl = None,
      scenes = [\<lparr>accent = ''#1E90FF'', children = [0]\<rparr>, \<lparr>accent = ''#FF4500'', children = [1]\<rparr>],
      models = [Some 0, Some 1],
      objects = [\<lparr>placeholder = True, rotation_x = Num 0, rotation_y = Num 0,
                   rotation_z = Num 0, released = False\<rparr>,
                 \<lparr>placeholder = True, rotation_x = Num 0, rotation_y = Num 0,
                   rotation_z = Num 0, released = False\<rparr>],
      isMobile = w < 768,
      cam = \<lparr>aspect = js_div (Num (real w)) (Num (real h)),
              projAspect = js_div (Num (real w)) (Num (real h))\<rparr>,
      gl = [SetSize w h, SetScissorTest True, SetScissorTest True,
            SetViewport (first_region (w < 768) w h), SetScissor (first_region (w < 768) w h),
            Render (Some 0) \<lparr>aspect = js_div (Num (real w)) (Num (real h)),
              projAspect = js_div (Num (real w)) (Num (real h))\<rparr>,
            SetViewport (second_region (w < 768) w h), SetScissor (second_region (w < 768) w h),
            Render (Some 1) \<lparr>aspect = js_div (Num (real w)) (Num (real h)),
              projAspect = js_div (Num (real w)) (Num (real h))\<rparr>],
      frameRequests = 1, hideTimers = 0,
      scrollProgress = Num 0, targetScrollProgress = Num 0, isInView = True,
      observing = True, canvasWrapper = None, loadedCount = 0, pendingLoads = []\<rparr>"
  by (simp add: scrollA_at_def constructor_scrollA_def init_scrollA_def animate_scrollA_def
      render_scrollA_def construct_defs first_region_def second_region_def)

lemma hover_at_two:
  "hover_at w h spec_panels =
     \<lparr>panels = spec_panels, loadingEl = None,
      scenes = [\<lparr>accent = ''#1E90FF'', children = [0]\<rparr>, \<lparr>accent = ''#FF4500'', children = [1]\<rparr>],
      models = [Some 0, Some 1],
      objects = [\<lparr>placeholder = True, rotation_x = js_neg (literal 0.2), rotation_y = Num 0,
                   rotation_z = Num 0, released = False\<rparr>,
                 \<lparr>placeholder = True, rotation_x = js_neg (literal 0.2), rotation_y = Num 0,
                   rotation_z = Num 0, released = False\<rparr>],
      isMobile = w < 768,
      cam = \<lparr>aspect = js_div (Num (real w)) (Num (real h)),
              projAspect = js_div (Num (real w)) (Num (real h))\<rparr>,
      gl = [SetSize w h, SetScissorTest True, SetScissorTest True,
            SetViewport (first_region (w < 768) w h), SetScissor (first_region (w < 768) w h),
            Render (Some 0) \<lparr>aspect = js_div (Num (real w)) (Num (real h)),
              projAspect = js_div (Num (real w)) (Num (real h))\<rparr>,
            SetViewport (second_region (w < 768) w h), SetScissor (second_region (w < 768) w h),
            Render (Some 1) \<lparr>aspect = js_div (Num (real w)) (Num (real h)),
              projAspect = js_div (Num (real w)) (Num (real h))\<rparr>],
      frameRequests = 1, hideTimers = 0,
      isHovered = [False, False], rotationSpeed = literal 0.3\<rparr>"
  by (simp add: hover_at_def constructor_hover_def init_hover_def animate_hover_def
      render_hover_throws render_hover_def construct_defs first_region_def second_region_def
      hovered_def)

lemma scrollB_at_eq:
  "scrollB_at w h =
     \<lparr>panels = spec_panels, loadingEl = None,
      scenes = [\<lparr>accent = ''#1E90FF'', children = []\<rparr>, \<lparr>accent = ''#FF4500'', children = []\<rparr>],
      models = [], objects = [],
      isMobile = w < 768,
      cam = \<lparr>aspect = half_aspect (w < 768) w h, projAspect = half_aspect (w < 768) w h\<rparr>,
      gl = [SetSize w h, SetScissorTest True, SetScissorTest True,
            SetViewport (first_region (w < 768) w h), SetScissor (first_region (w < 768) w h),
            Render (Some 0) \<lparr>aspect = half_aspect (w < 768) w h,
              projAspect = half_aspect (w < 768) w h\<rparr>,
            SetViewport (second_region (w < 768) w h), SetScissor (second_region (w < 768) w h),
            Render (Some 1) \<lparr>aspect = half_aspect (w < 768) w h,
              projAspect = half_aspect (w < 768) w h\<rparr>],
      frameRequests = 1, hideTimers = 0,
      scrollProgress = Num 0, targetScrollProgress = Num 0, isInView = True,
      observing = True, canvasWrapper = None, loadedCount = 0, pendingLoads = [0, 1]\<rparr>"
proof -
  have u: "[0 ..< length spec_panels] = [0, 1]"
    by (simp add: spec_panels_def upt_conv_Cons)
  show ?thesis
    by (simp add: scrollB_at_def constructor_scrollB_def init_scrollB_def animate_scrollB_def
      render_scrollB_def construct_defs first_region_def second_region_def half_aspect_def
      upt_conv_Cons)
qed

lemma hover_without_panels_eq:
  "hover_without_panels w h =
     \<lparr>panels = [], loadingEl = None, scenes = [], models = [], objects = [],
      isMobile = w < 768,
      cam = \<lparr>aspect = js_div (Num (real w)) (Num (real h)),
              projAspect = js_div (Num (real w)) (Num (real h))\<rparr>,
      gl = [SetSize w h, SetScissorTest True],
      frameRequests = 1, hideTimers = 0,
      isHovered = [False, False], rotationSpeed = literal 0.3\<rparr>"
  by (simp add: hover_without_panels_def construct_defs)

section \<open>The two regions and the surface\<close>

lemma regions_disjoint:
  "pixels (first_region m w h) \<inter> pixels (second_region m w h) = {}"
  by (auto simp: first_region_def second_region_def)

lemma regions_within:
  "pixels (first_region m w h) \<union> pixels (second_region m w h) \<subseteq> surface w h"
  by (auto simp: first_region_def second_region_def surface_def)

lemma regions_rest:
  "surface w h - (pixels (first_region m w h) \<union> pixels (second_region m w h)) =
     (if m then (if even h then {} else {0 ..< w} \<times> {h - 1})
      else (if even w then {} else {w - 1} \<times> {0 ..< h}))"
  by (auto simp: first_region_def second_region_def surface_def elim!: evenE oddE)

lemma halves_surface_regions:
  assumes "viewports cs = [first_region m w h, second_region m w h]"
    and "scissors cs = viewports cs"
  shows "halves_surface cs m w h"
  unfolding halves_surface_def Let_def
  using assms regions_disjoint [of m w h] regions_within [of m w h] regions_rest [of w h m]
  by simp

text \<open>
  C1, as amended. For every surface size and every instance with its two scenes, in each of
  the three variants: the two rectangles that \<open>render\<close> gives to \<^verbatim>\<open>setViewport\<close> (and, equal
  to them, to \<^verbatim>\<open>setScissor\<close>) are disjoint and lie inside the surface; their union is the
  whole surface when the split dimension is even, and the whole surface but the last row
  (top/bottom split) or the last column (left/right split) when it is odd.
\<close>

theorem render_regions_halve_surface:
  assumes "2 \<le> length (scenes s)"
  shows "halves_surface (calls_of (render_scrollA pg) s) (isMobile s) (innerWidth pg) (innerHeight pg)
       \<and> halves_surface (calls_of (render_scrollB pg) s) (isMobile s) (innerWidth pg) (innerHeight pg)
       \<and> halves_surface (calls_of (render_hover pg) s) (isMobile s) (clientWidth pg) (clientHeight pg)"
proof -
  from assms have two: "scenes s \<noteq> []" "Suc 0 < length (scenes s)" by auto
  have a: "halves_surface (calls_of (render_scrollA pg) s) (isMobile s) (innerWidth pg) (innerHeight pg)"
    by (rule halves_surface_regions) (simp_all add: render_scrollA_calls two)
  have b: "halves_surface (calls_of (render_scrollB pg) s) (isMobile s) (innerWidth pg) (innerHeight pg)"
    by (rule halves_surface_regions) (simp_all add: render_scrollB_calls two)
  have c: "halves_surface (calls_of (render_hover pg) s) (isMobile s) (clientWidth pg) (clientHeight pg)"
    by (rule halves_surface_regions) (simp_all add: render_hover_calls two)
  from a b c show ?thesis by simp
qed

text \<open>The theorem at the scenario's surface of 1024 by 600, on the instances built there, and
  at a narrow surface of odd height, 375 by 801.\<close>

theorem render_regions_halve_surface_witness:
  "2 \<le> length (scenes (scrollA_at 1024 600))
   \<and> halves_surface (calls_of (render_scrollA (page_of 1024 600)) (scrollA_at 1024 600)) False 1024 600
   \<and> 2 \<le> length (scenes (hover_at 1024 600 spec_panels))
   \<and> halves_surface (calls_of (render_hover (page_of 1024 600)) (hover_at 1024 600 spec_panels)) False 1024 600
   \<and> 2 \<le> length (scenes (scrollB_at 375 801))
   \<and> halves_surface (calls_of (render_scrollB (page_of 375 801)) (scrollB_at 375 801)) True 375 801"
proof -
  have two: "2 \<le> length (scenes (scrollA_at 1024 600))" by (simp add: scrollA_at_eq)
  have m: "isMobile (scrollA_at 1024 600) = False" by (simp add: scrollA_at_eq)
  have two': "2 \<le> length (scenes (hover_at 1024 600 spec_panels))" by (simp add: hover_at_two)
  have m': "isMobile (hover_at 1024 600 spec_panels) = False" by (simp add: hover_at_two)
  have two'': "2 \<le> length (scenes (scrollB_at 375 801))" by (simp add: scrollB_at_eq)
  have m'': "isMobile (scrollB_at 375 801) = True" by (simp add: scrollB_at_eq)
  show ?thesis
    using two two' two'' render_regions_halve_surface [OF two, of "page_of 1024 600"]
      render_regions_halve_surface [OF two', of "page_of 1024 600"]
      render_regions_halve_surface [OF two'', of "page_of 375 801"]
    by (simp add: m m' m'' page_of_def)
qed

text \<open>C1 as stated fails on a surface of 1025 by 600: the instance built there splits left
  and right, both regions are 512 wide, and the pixel column 1024 of the surface is in
  neither.\<close>

theorem render_regions_gap_counterexample:
  "viewports (calls_of (render_scrollA (page_of 1025 600)) (scrollA_at 1025 600))
     = [Rect 0 0 512 600, Rect 512 0 512 600]
   \<and> (1024, 0) \<in> surface 1025 600
   \<and> (1024, 0) \<notin> pixels (Rect 0 0 512 600) \<union> pixels (Rect 512 0 512 600)
   \<and> \<not> covers_exactly (calls_of (render_scrollA (page_of 1025 600)) (scrollA_at 1025 600)) 1025 600"
proof -
  have v: "viewports (calls_of (render_scrollA (page_of 1025 600)) (scrollA_at 1025 600))
     = [Rect 0 0 512 600, Rect 512 0 512 600]"
    by (simp add: render_scrollA_calls scrollA_at_eq first_region_def second_region_def page_of_def)
  have i: "((1024::nat), (0::nat)) \<in> surface 1025 600" by (simp add: surface_def)
  have o: "((1024::nat), (0::nat)) \<notin> pixels (Rect 0 0 512 600) \<union> pixels (Rect 512 0 512 600)"
    by simp
  from i o have "pixels (Rect 0 0 512 600) \<union> pixels (Rect 512 0 512 600) \<noteq> surface 1025 600"
    by blast
  with v have "\<not> covers_exactly (calls_of (render_scrollA (page_of 1025 600)) (scrollA_at 1025 600)) 1025 600"
    by (simp add: covers_exactly_def Let_def)
  with v i o show ?thesis by simp
qed

section \<open>What the constructors return\<close>

lemma add_model_Inr:
  "index < length (scenes s) \<Longrightarrow>
   \<exists>s'. add_model index g s = Inr s' \<and> isMobile s' = isMobile s
     \<and> length (scenes s') = length (scenes s) \<and> panels s' = panels s \<and> gl s' = gl s
     \<and> cam s' = cam s \<and> frameRequests s' = frameRequests s"
  by (simp add: add_model_def Let_def)

lemma onModelsLoaded_fields:
  "isMobile (onModelsLoaded s) = isMobile s \<and> scenes (onModelsLoaded s) = scenes s
   \<and> panels (onModelsLoaded s) = panels s \<and> gl (onModelsLoaded s) = gl s
   \<and> cam (onModelsLoaded s) = cam s \<and> frameRequests (onModelsLoaded s) = frameRequests s"
  by (simp add: onModelsLoaded_def split: option.split)

lemma loadModels_scrollA_loop_Inr:
  "index + length ps \<le> length (scenes s) \<Longrightarrow>
   \<exists>s'. loadModels_scrollA_loop index loaded ps s = Inr s' \<and> isMobile s' = isMobile s
     \<and> length (scenes s') = length (scenes s) \<and> panels s' = panels s \<and> gl s' = gl s
     \<and> cam s' = cam s \<and> frameRequests s' = frameRequests s"
proof (induction ps arbitrary: index loaded s)
  case Nil
  then show ?case by simp
next
  case (Cons p ps)
  then have "index < length (scenes s)" by simp
  from add_model_Inr [OF this] obtain s1 where
    s1: "createPlaceholderModel_scroll index p s = Inr s1" "isMobile s1 = isMobile s"
      "length (scenes s1) = length (scenes s)" "panels s1 = panels s" "gl s1 = gl s"
      "cam s1 = cam s" "frameRequests s1 = frameRequests s"
    unfolding createPlaceholderModel_scroll_def by blast
  define s2 where "s2 = (if loaded + 1 = length (panels s1) then onModelsLoaded s1 else s1)"
  have s2: "isMobile s2 = isMobile s" "length (scenes s2) = length (scenes s)"
    "panels s2 = panels s" "gl s2 = gl s" "cam s2 = cam s" "frameRequests s2 = frameRequests s"
    using s1 by (simp_all add: s2_def onModelsLoaded_fields)
  from Cons.prems s2 have "(index + 1) + length ps \<le> length (scenes s2)" by simp
  from Cons.IH [OF this, of "loaded + 1"] s2 s1(1) show ?case
    by (simp add: s2_def)
qed

lemma setupScenes_length_aux:
  "length (scenes (fold (\<lambda>p s. s\<lparr>scenes := scenes s @ [new_scene p]\<rparr>) ps s)) = length (scenes s) + length ps
   \<and> isMobile (fold (\<lambda>p s. s\<lparr>scenes := scenes s @ [new_scene p]\<rparr>) ps s) = isMobile s
   \<and> panels (fold (\<lambda>p s. s\<lparr>scenes := scenes s @ [new_scene p]\<rparr>) ps s) = panels s"
  by (induction ps arbitrary: s) simp_all

lemma constructor_scrollA_ok:
  "\<exists>s. constructor_scrollA pg ps el w = Inr s \<and> isMobile s = (innerWidth pg < 768)
     \<and> length (scenes s) = length ps"
proof -
  define s0 where "s0 = setupCamera_scroll pg (setupScenes (setupRenderer_scroll pg (new_scroll pg ps el w)))"
  have f: "length (scenes s0) = length ps" "isMobile s0 = (innerWidth pg < 768)" "panels s0 = ps"
    by (simp_all add: s0_def setupCamera_scroll_def setupScenes_def Let_def
        setupScenes_length_aux setupRenderer_scroll_def emit_def new_scroll_def)
  then have "0 + length (panels s0) \<le> length (scenes s0)" by simp
  from loadModels_scrollA_loop_Inr [OF this, of 0] obtain s1 where
    s1: "loadModels_scrollA s0 = Inr s1" "isMobile s1 = isMobile s0"
        "length (scenes s1) = length (scenes s0)"
    unfolding loadModels_scrollA_def by blast
  have "constructor_scrollA pg ps el w = Inr (animate_scrollA pg (s1\<lparr>observing := True\<rparr>))"
    using s1(1) by (simp add: constructor_scrollA_def init_scrollA_def Let_def s0_def)
  moreover have "isMobile (animate_scrollA pg (s1\<lparr>observing := True\<rparr>)) = isMobile s1"
    "scenes (animate_scrollA pg (s1\<lparr>observing := True\<rparr>)) = scenes s1"
    by (simp_all add: animate_scrollA_def render_scrollA_def animate_step_def Let_def emit_def
        renderer_render_def requestAnimationFrame_def)
  ultimately show ?thesis using s1 f by simp
qed


lemma loadModels_hover_loop_Inr:
  "index + length ps \<le> length (scenes s) \<Longrightarrow>
   \<exists>s'. loadModels_hover_loop index loaded ps s = Inr s' \<and> isMobile s' = isMobile s
     \<and> length (scenes s') = length (scenes s) \<and> panels s' = panels s \<and> gl s' = gl s
     \<and> cam s' = cam s \<and> frameRequests s' = frameRequests s"
proof (induction ps arbitrary: index loaded s)
  case Nil
  then show ?case by simp
next
  case (Cons p ps)
  then have "index < length (scenes s)" by simp
  from add_model_Inr [OF this] obtain s1 where
    s1: "createPlaceholderModel_hover index p s = Inr s1" "isMobile s1 = isMobile s"
      "length (scenes s1) = length (scenes s)" "panels s1 = panels s" "gl s1 = gl s"
      "cam s1 = cam s" "frameRequests s1 = frameRequests s"
    unfolding createPlaceholderModel_hover_def by blast
  define s2 where "s2 = (if loaded + 1 = length (panels s1) then onModelsLoaded s1 else s1)"
  have s2: "isMobile s2 = isMobile s" "length (scenes s2) = length (scenes s)"
    "panels s2 = panels s" "gl s2 = gl s" "cam s2 = cam s" "frameRequests s2 = frameRequests s"
    using s1 by (simp_all add: s2_def onModelsLoaded_fields)
  from Cons.prems s2 have "(index + 1) + length ps \<le> length (scenes s2)" by simp
  from Cons.IH [OF this, of "loaded + 1"] s2 s1(1) show ?case
    by (simp add: s2_def)
qed

lemma constructor_hover_ok:
  assumes "ps \<noteq> []"
  shows "\<exists>s. constructor_hover pg delta ps el = Inr s \<and> isMobile s = (innerWidth pg < 768)
     \<and> length (scenes s) = length ps"
proof -
  define s0 where "s0 = setupCamera_hover pg (setupScenes (setupRenderer_hover pg
      (new_hover pg ps el)))"
  have f: "length (scenes s0) = length ps" "isMobile s0 = (innerWidth pg < 768)" "panels s0 = ps"
    by (simp_all add: s0_def setupCamera_hover_def setupScenes_def Let_def
        setupScenes_length_aux setupRenderer_hover_def emit_def new_hover_def)
  then have "0 + length (panels s0) \<le> length (scenes s0)" by simp
  from loadModels_hover_loop_Inr [OF this, of 0] obtain s1 where
    s1: "loadModels_hover s0 = Inr s1" "isMobile s1 = isMobile s0"
        "length (scenes s1) = length (scenes s0)"
    unfolding loadModels_hover_def by blast
  define s2 where "s2 = (requestAnimationFrame s1)\<lparr>objects :=
      spin_models (js_mul (rotationSpeed s1) (Num delta)) (isHovered s1) 0 (models s1) (objects s1)\<rparr>"
  have s2: "scenes s2 = scenes s1" "isMobile s2 = isMobile s1"
    by (simp_all add: s2_def requestAnimationFrame_def)
  with s1 f assms have n: "scenes s2 \<noteq> []" by auto
  have "animate_hover pg delta s1 = Inr (render_hover pg s2)"
    using n by (simp add: animate_hover_def Let_def render_hover_throws s2_def
        requestAnimationFrame_def)
  then have "constructor_hover pg delta ps el = Inr (render_hover pg s2)"
    using s1(1) by (simp add: constructor_hover_def init_hover_def Let_def s0_def)
  moreover have "isMobile (render_hover pg s2) = isMobile s2"
    "scenes (render_hover pg s2) = scenes s2"
    by (simp_all add: render_hover_def Let_def emit_def renderer_render_def)
  ultimately show ?thesis using s1 s2 f by simp
qed

lemma constructor_hover_no_panels: "constructor_hover pg delta [] el = Inl TypeError"
  by (simp add: constructor_hover_def init_hover_def animate_hover_def render_hover_throws
      construct_defs)

section \<open>Layout orientation\<close>

lemma onResize_scroll_fields:
  "isMobile (onResize_scroll pg s) = (innerWidth pg < 768)
   \<and> scenes (onResize_scroll pg s) = scenes s"
  by (simp add: onResize_scroll_def Let_def emit_def set_aspect_def updateProjectionMatrix_def)

lemma render_scrollA_fields:
  "isMobile (render_scrollA pg s) = isMobile s \<and> scenes (render_scrollA pg s) = scenes s"
  by (simp add: render_scrollA_def Let_def emit_def renderer_render_def)

text \<open>
  C6, as amended. The layout is a function of the window's width alone: after a resize
  (and after construction) the flag is \<open>innerWidth < 768\<close>, whatever the height; with the
  flag set \<open>render\<close> splits top and bottom, otherwise left and right; and rendering again
  on the same page gives the same rectangles.
\<close>

theorem layout_follows_window_width:
  assumes "2 \<le> length (scenes s)"
  shows "isMobile (onResize_scroll pg s) = (innerWidth pg < 768)
     \<and> viewports (calls_of (render_scrollA pg) (onResize_scroll pg s)) =
         (if innerWidth pg < 768
          then [Rect 0 (innerHeight pg div 2) (innerWidth pg) (innerHeight pg div 2),
                Rect 0 0 (innerWidth pg) (innerHeight pg div 2)]
          else [Rect 0 0 (innerWidth pg div 2) (innerHeight pg),
                Rect (innerWidth pg div 2) 0 (innerWidth pg div 2) (innerHeight pg)])
     \<and> viewports (calls_of (render_scrollA pg) (render_scrollA pg (onResize_scroll pg s))) =
         viewports (calls_of (render_scrollA pg) (onResize_scroll pg s))
     \<and> (\<exists>s0. constructor_scrollA pg ps el w = Inr s0 \<and> isMobile s0 = (innerWidth pg < 768))"
proof -
  from assms have two: "scenes s \<noteq> []" "Suc 0 < length (scenes s)" by auto
  have a: "isMobile (onResize_scroll pg s) = (innerWidth pg < 768)"
    by (simp add: onResize_scroll_fields)
  have b: "viewports (calls_of (render_scrollA pg) (onResize_scroll pg s)) =
         (if innerWidth pg < 768
          then [Rect 0 (innerHeight pg div 2) (innerWidth pg) (innerHeight pg div 2),
                Rect 0 0 (innerWidth pg) (innerHeight pg div 2)]
          else [Rect 0 0 (innerWidth pg div 2) (innerHeight pg),
                Rect (innerWidth pg div 2) 0 (innerWidth pg div 2) (innerHeight pg)])"
    by (simp add: render_scrollA_calls onResize_scroll_fields two first_region_def
        second_region_def)
  have c: "viewports (calls_of (render_scrollA pg) (render_scrollA pg (onResize_scroll pg s))) =
         viewports (calls_of (render_scrollA pg) (onResize_scroll pg s))"
    by (simp add: render_scrollA_calls render_scrollA_fields onResize_scroll_fields two)
  from constructor_scrollA_ok [of pg ps el w]
  have d: "\<exists>s0. constructor_scrollA pg ps el w = Inr s0 \<and> isMobile s0 = (innerWidth pg < 768)"
    by blast
  from a b c d show ?thesis by simp
qed

text \<open>The scenario's two surfaces: 1024 by 600 gives the left region \<open>(0,0,512,600)\<close> and
  the right region \<open>(512,0,512,600)\<close>; 375 by 800 gives the top region \<open>(0,400,375,400)\<close> and
  the bottom region \<open>(0,0,375,400)\<close>.\<close>

theorem layout_follows_window_width_witness:
  "2 \<le> length (scenes (scrollA_at 1024 600))
   \<and> viewports (calls_of (render_scrollA (page_of 1024 600))
        (onResize_scroll (page_of 1024 600) (scrollA_at 1024 600)))
       = [Rect 0 0 512 600, Rect 512 0 512 600]
   \<and> 2 \<le> length (scenes (scrollA_at 375 800))
   \<and> viewports (calls_of (render_scrollA (page_of 375 800))
        (onResize_scroll (page_of 375 800) (scrollA_at 375 800)))
       = [Rect 0 400 375 400, Rect 0 0 375 400]"
proof -
  have two: "2 \<le> length (scenes (scrollA_at 1024 600))" by (simp add: scrollA_at_eq)
  have two': "2 \<le> length (scenes (scrollA_at 375 800))" by (simp add: scrollA_at_eq)
  show ?thesis
    using two two' layout_follows_window_width [OF two, of "page_of 1024 600"]
      layout_follows_window_width [OF two', of "page_of 375 800"]
    by (simp add: page_of_def)
qed

text \<open>C6 as stated fails: a surface of 800 by 1000 is narrower than high and is split left and
  right; and the square surfaces 500 by 500 and 1000 by 1000, of one aspect ratio, are
  split differently.\<close>

theorem layout_ignores_height_counterexample:
  "(800::nat) < 1000
   \<and> viewports (calls_of (render_scrollA (page_of 800 1000))
        (onResize_scroll (page_of 800 1000) (scrollA_at 800 1000)))
       = [Rect 0 0 400 1000, Rect 400 0 400 1000]
   \<and> viewports (calls_of (render_scrollA (page_of 500 500))
        (onResize_scroll (page_of 500 500) (scrollA_at 500 500)))
       = [Rect 0 250 500 250, Rect 0 0 500 250]
   \<and> viewports (calls_of (render_scrollA (page_of 1000 1000))
        (onResize_scroll (page_of 1000 1000) (scrollA_at 1000 1000)))
       = [Rect 0 0 500 1000, Rect 500 0 500 1000]"
  by (simp add: render_scrollA_calls onResize_scroll_fields scrollA_at_eq first_region_def
      second_region_def page_of_def)

section \<open>What a tick writes\<close>

lemma animate_step_fields:
  "scrollProgress (animate_step s) =
     js_add (scrollProgress s)
       (js_mul (js_sub (targetScrollProgress s) (scrollProgress s)) (literal 0.08))
   \<and> targetScrollProgress (animate_step s) = targetScrollProgress s
   \<and> isInView (animate_step s) = isInView s"
  by (simp add: animate_step_def Let_def)

lemma render_scrollA_scroll_fields:
  fixes s :: "'a scroll_showcase_scheme"
  shows "scrollProgress (render_scrollA pg s) = scrollProgress s
   \<and> targetScrollProgress (render_scrollA pg s) = targetScrollProgress s
   \<and> isInView (render_scrollA pg s) = isInView s"
  by (simp add: render_scrollA_def Let_def emit_def renderer_render_def)

lemma render_scrollB_scroll_fields:
  fixes s :: "'a scroll_showcase_scheme"
  shows "scrollProgress (render_scrollB pg s) = scrollProgress s
   \<and> targetScrollProgress (render_scrollB pg s) = targetScrollProgress s
   \<and> isInView (render_scrollB pg s) = isInView s"
  by (simp add: render_scrollB_def Let_def emit_def renderer_render_def set_aspect_def
      updateProjectionMatrix_def)

lemma render_scrollA_objects: "objects (render_scrollA pg s) = objects s"
  by (simp add: render_scrollA_def Let_def emit_def renderer_render_def)

lemma animate_step_objects:
  "objects (animate_step s) =
     set_rotation_z (js_mul (js_mul (scrollProgress (animate_step s)) Math_PI) (Num 2))
       (models s) (objects s)"
  by (simp add: animate_step_def Let_def)

lemma animate_scrollA_progress:
  "isInView s \<Longrightarrow> scrollProgress (animate_scrollA pg s) =
     js_add (scrollProgress s)
       (js_mul (js_sub (targetScrollProgress s) (scrollProgress s)) (literal 0.08))"
  by (simp add: animate_scrollA_def Let_def requestAnimationFrame_def
      render_scrollA_scroll_fields animate_step_fields)

lemma animate_scrollA_objects:
  "isInView s \<Longrightarrow> objects (animate_scrollA pg s) =
     set_rotation_z (js_mul (js_mul (scrollProgress (animate_scrollA pg s)) Math_PI) (Num 2))
       (models s) (objects s)"
  by (simp add: animate_scrollA_def Let_def requestAnimationFrame_def
      render_scrollA_scroll_fields render_scrollA_objects animate_step_objects
      animate_step_fields)

section \<open>Scroll target\<close>

lemma onScroll_target:
  "targetScrollProgress (onScroll pg s) =
     Math_max (Num 0) (Math_min (Num 1)
       (js_div (Num (- rectTop pg)) (round64 (real (offsetHeight pg) - real (innerHeight pg)))))"
  by (simp add: onScroll_def Let_def of_px_def js_sub_def)

lemma clamp_unit:
  "x \<noteq> NaN \<Longrightarrow> \<exists>t. Math_max (Num 0) (Math_min (Num 1) x) = Num t \<and> 0 \<le> t \<and> t \<le> 1"
  by (cases x) simp_all

lemma js_div_number:
  assumes "a \<noteq> 0" "d \<noteq> NaN"
  shows "js_div (Num a) d \<noteq> NaN"
proof (cases d)
  case (Num b)
  then show ?thesis using assms(1)
    by (cases "round64 (a / b)") (auto simp: round64_def Let_def split: if_splits)
qed (use assms in simp_all)

lemma round64_number: "round64 x \<noteq> NaN"
  by (simp add: round64_def Let_def)

text \<open>Off the top of the section (\<open>rect.top\<close> not 0) the target is a number in [0,1], whatever
  the heights: an infinite quotient is clamped.\<close>

lemma onScroll_target_clamped:
  assumes "rectTop pg \<noteq> 0"
  shows "\<exists>t. targetScrollProgress (onScroll pg s) = Num t \<and> 0 \<le> t \<and> t \<le> 1"
proof -
  from assms have "- rectTop pg \<noteq> 0" by simp
  from js_div_number [OF this round64_number] show ?thesis
    unfolding onScroll_target by (rule clamp_unit)
qed

text \<open>
  C3 on both scroll copies, on a page whose section is as high as the window (600) and has
  not been scrolled (\<open>rect.top\<close> is 0): the divisor \<open>sectionHeight - viewportHeight\<close> is 0, used
  as it is, the quotient is \<open>0 / 0\<close>, and the target that comes out of
  \<^verbatim>\<open>Math.max(0, Math.min(1, _))\<close> is NaN. The next tick makes the displayed progress NaN, and
  the rotation of both models with it.
\<close>

theorem onScroll_zero_by_zero_is_NaN:
  "offsetHeight (page_of 1024 600) = innerHeight (page_of 1024 600)
   \<and> rectTop (page_of 1024 600) = 0
   \<and> targetScrollProgress (onScroll (page_of 1024 600) (scrollA_at 1024 600)) = NaN
   \<and> targetScrollProgress (onScroll (page_of 1024 600) (scrollB_at 1024 600)) = NaN
   \<and> scrollProgress (animate_scrollA (page_of 1024 600)
        (onScroll (page_of 1024 600) (scrollA_at 1024 600))) = NaN
   \<and> map rotation_z (objects (animate_scrollA (page_of 1024 600)
        (onScroll (page_of 1024 600) (scrollA_at 1024 600)))) = [NaN, NaN]"
proof -
  have a: "targetScrollProgress (onScroll (page_of 1024 600) (scrollA_at 1024 600)) = NaN"
    "targetScrollProgress (onScroll (page_of 1024 600) (scrollB_at 1024 600)) = NaN"
    by (simp_all add: onScroll_target page_of_def)
  have b: "scrollProgress (onScroll (page_of 1024 600) (scrollA_at 1024 600)) = Num 0"
    "isInView (onScroll (page_of 1024 600) (scrollA_at 1024 600))"
    "models (onScroll (page_of 1024 600) (scrollA_at 1024 600)) = [Some 0, Some 1]"
    "objects (onScroll (page_of 1024 600) (scrollA_at 1024 600)) = objects (scrollA_at 1024 600)"
    by (simp_all add: onScroll_def Let_def scrollA_at_eq)
  have o: "objects (scrollA_at 1024 600) =
      [\<lparr>placeholder = True, rotation_x = Num 0, rotation_y = Num 0,
         rotation_z = Num 0, released = False\<rparr>,
       \<lparr>placeholder = True, rotation_x = Num 0, rotation_y = Num 0,
         rotation_z = Num 0, released = False\<rparr>]"
    by (simp add: scrollA_at_eq)
  have c: "scrollProgress (animate_scrollA (page_of 1024 600)
        (onScroll (page_of 1024 600) (scrollA_at 1024 600))) = NaN"
    by (simp add: animate_scrollA_progress a b js_sub_def literal_simps)
  have d: "map rotation_z (objects (animate_scrollA (page_of 1024 600)
        (onScroll (page_of 1024 600) (scrollA_at 1024 600)))) = [NaN, NaN]"
    by (simp add: animate_scrollA_objects c b o Math_PI_def)
  from a c d show ?thesis by (simp add: page_of_def)
qed

section \<open>Smoothing\<close>

lemma animate_scrollA_tick:
  assumes "isInView s" "targetScrollProgress s = Num t" "scrollProgress s = Num p"
    "0 \<le> t" "t \<le> 1" "0 \<le> p" "p \<le> 1"
  shows "isInView (animate_scrollA pg s) \<and> targetScrollProgress (animate_scrollA pg s) = Num t
     \<and> scrollProgress (animate_scrollA pg s) = Num (smooth t p)"
  using assms(1-3) js_smooth [OF assms(4-7)]
  by (simp add: animate_scrollA_def Let_def requestAnimationFrame_def render_scrollA_scroll_fields
      animate_step_fields)

lemma animate_scrollB_tick:
  assumes "isInView s" "targetScrollProgress s = Num t" "scrollProgress s = Num p"
    "0 \<le> t" "t \<le> 1" "0 \<le> p" "p \<le> 1"
  shows "isInView (animate_scrollB pg s) \<and> targetScrollProgress (animate_scrollB pg s) = Num t
     \<and> scrollProgress (animate_scrollB pg s) = Num (smooth t p)"
  using assms(1-3) js_smooth [OF assms(4-7)]
  by (simp add: animate_scrollB_def Let_def requestAnimationFrame_def render_scrollB_scroll_fields
      animate_step_fields)

lemma steady_scrollA:
  assumes "steady s t p"
  shows "steady (animate_scrollA pg s) t (smooth t p)"
proof -
  from assms have h: "isInView s" "targetScrollProgress s = Num t" "scrollProgress s = Num p"
    "0 \<le> t" "t \<le> 1" "0 \<le> p" "p \<le> 1" and d: "is_double t" "is_double p"
    by (simp_all add: steady_def)
  from smooth_step [OF d h(4-7)]
  have "is_double (smooth t p)" "min p t \<le> smooth t p" "smooth t p \<le> max p t" by simp_all
  with h have "is_double (smooth t p)" "0 \<le> smooth t p" "smooth t p \<le> 1"
    by (simp_all add: min_def max_def split: if_splits)
  with animate_scrollA_tick [OF h, of pg] h d show ?thesis by (simp add: steady_def)
qed

lemma steady_scrollB:
  assumes "steady s t p"
  shows "steady (animate_scrollB pg s) t (smooth t p)"
proof -
  from assms have h: "isInView s" "targetScrollProgress s = Num t" "scrollProgress s = Num p"
    "0 \<le> t" "t \<le> 1" "0 \<le> p" "p \<le> 1" and d: "is_double t" "is_double p"
    by (simp_all add: steady_def)
  from smooth_step [OF d h(4-7)]
  have "is_double (smooth t p)" "min p t \<le> smooth t p" "smooth t p \<le> max p t" by simp_all
  with h have "is_double (smooth t p)" "0 \<le> smooth t p" "smooth t p \<le> 1"
    by (simp_all add: min_def max_def split: if_splits)
  with animate_scrollB_tick [OF h, of pg] h d show ?thesis by (simp add: steady_def)
qed

lemma ticks_scrollA:
  "steady s t p \<Longrightarrow> steady (fold animate_scrollA pgs s) t (smooth_n (length pgs) t p)"
proof (induction pgs arbitrary: s p)
  case Nil
  then show ?case by simp
next
  case (Cons pg pgs)
  from Cons.IH [OF steady_scrollA [OF Cons.prems, of pg]] show ?case by simp
qed

lemma ticks_scrollB:
  "steady s t p \<Longrightarrow> steady (fold animate_scrollB pgs s) t (smooth_n (length pgs) t p)"
proof (induction pgs arbitrary: s p)
  case Nil
  then show ?case by simp
next
  case (Cons pg pgs)
  from Cons.IH [OF steady_scrollB [OF Cons.prems, of pg]] show ?case by simp
qed

lemma close_after:
  fixes t p :: real
  assumes "0 \<le> t" "t \<le> 1" "0 \<le> p" "p \<le> 1" "(0.92::real) ^ N < e" "N \<le> n"
  shows "\<bar>t - (t - (t - p) * 0.92 ^ n)\<bar> < e"
proof -
  have "\<bar>t - (t - (t - p) * 0.92 ^ n)\<bar> = \<bar>t - p\<bar> * 0.92 ^ n"
    by (simp add: abs_mult)
  also have "\<dots> \<le> 1 * 0.92 ^ n"
    by (rule mult_right_mono) (use assms in simp_all)
  also have "\<dots> \<le> 0.92 ^ N"
    unfolding mult_1 by (rule power_decreasing) (use assms in simp_all)
  also note assms(5)
  finally show ?thesis .
qed

lemma ticks_progress:
  assumes "steady s t p"
  shows "scrollProgress (fold animate_scrollA pgs s) = Num (smooth_n (length pgs) t p)
     \<and> scrollProgress (fold animate_scrollB pgs s) = Num (smooth_n (length pgs) t p)
     \<and> is_double (smooth_n (length pgs) t p)
     \<and> 0 \<le> smooth_n (length pgs) t p \<and> smooth_n (length pgs) t p \<le> 1
     \<and> min p t \<le> smooth_n (length pgs) t p \<and> smooth_n (length pgs) t p \<le> max p t
     \<and> \<bar>smooth_n (length pgs) t p - (t - (t - p) * 0.92 ^ length pgs)\<bar> \<le> 1 / 2 ^ 47"
proof -
  from assms have h: "is_double t" "0 \<le> t" "t \<le> 1" "is_double p" "0 \<le> p" "p \<le> 1"
    by (simp_all add: steady_def)
  from ticks_scrollA [OF assms, of pgs] ticks_scrollB [OF assms, of pgs]
  have a: "scrollProgress (fold animate_scrollA pgs s) = Num (smooth_n (length pgs) t p)"
    "scrollProgress (fold animate_scrollB pgs s) = Num (smooth_n (length pgs) t p)"
    "is_double (smooth_n (length pgs) t p)"
    "0 \<le> smooth_n (length pgs) t p" "smooth_n (length pgs) t p \<le> 1"
    by (simp_all add: steady_def)
  from smooth_n_props [OF h, of "length pgs"]
  have b: "min p t \<le> smooth_n (length pgs) t p" "smooth_n (length pgs) t p \<le> max p t"
    by simp_all
  from a b smooth_n_close [OF h, of "length pgs"] show ?thesis by simp
qed

text \<open>
  C4, as amended. In view, with a constant target \<open>t\<close> and a displayed progress \<open>p\<close>, both
  doubles in [0,1], after any number \<open>n\<close> of ticks of either scroll copy the displayed
  progress is a double in [0,1], between \<open>p\<close> and \<open>t\<close> (no overshoot), and within \<open>2\<^sup>-\<^sup>4\<^sup>7\<close> of
  \<open>t - (t - p) * 0.92 ^ n\<close>; for every \<open>e > 0\<close> there is a number of ticks, depending on \<open>e\<close>
  only, from which on it is within \<open>e + 2\<^sup>-\<^sup>4\<^sup>7\<close> of the target; and from 0 towards the target
  1 it is within \<open>2\<^sup>-\<^sup>4\<^sup>7\<close> of \<open>1 - 0.92 ^ n\<close>.
\<close>

theorem smoothing_stays_close:
  "(\<forall>s t p pgs. steady s t p \<longrightarrow>
      (\<exists>q. scrollProgress (fold animate_scrollA pgs s) = Num q
          \<and> scrollProgress (fold animate_scrollB pgs s) = Num q
          \<and> is_double q
          \<and> 0 \<le> q \<and> q \<le> 1 \<and> min p t \<le> q \<and> q \<le> max p t
          \<and> \<bar>q - (t - (t - p) * 0.92 ^ length pgs)\<bar> \<le> 1 / 2 ^ 47))
   \<and> (\<forall>e>0. \<exists>N. \<forall>s t p pgs. steady s t p \<and> N \<le> length pgs \<longrightarrow>
      (\<exists>q. scrollProgress (fold animate_scrollA pgs s) = Num q
          \<and> scrollProgress (fold animate_scrollB pgs s) = Num q
          \<and> \<bar>t - q\<bar> < e + 1 / 2 ^ 47))
   \<and> (\<forall>s pgs. steady s 1 0 \<longrightarrow>
      (\<exists>q. scrollProgress (fold animate_scrollA pgs s) = Num q
          \<and> scrollProgress (fold animate_scrollB pgs s) = Num q
          \<and> \<bar>q - (1 - 0.92 ^ length pgs)\<bar> \<le> 1 / 2 ^ 47))"
proof (intro conjI allI impI)
  fix s :: "'a scroll_showcase_scheme" and t p :: real and pgs :: "page list"
  assume st: "steady s t p"
  from ticks_progress [OF st, of pgs]
  show "\<exists>q. scrollProgress (fold animate_scrollA pgs s) = Num q
          \<and> scrollProgress (fold animate_scrollB pgs s) = Num q
          \<and> is_double q
          \<and> 0 \<le> q \<and> q \<le> 1 \<and> min p t \<le> q \<and> q \<le> max p t
          \<and> \<bar>q - (t - (t - p) * 0.92 ^ length pgs)\<bar> \<le> 1 / 2 ^ 47"
    by (intro exI [of _ "smooth_n (length pgs) t p"]) simp
next
  fix e :: real
  assume "0 < e"
  then obtain N where N: "(0.92::real) ^ N < e"
    using real_arch_pow_inv [of e "0.92"] by auto
  show "\<exists>N. \<forall>(s :: 'b scroll_showcase_scheme) t p pgs. steady s t p \<and> N \<le> length pgs \<longrightarrow>
      (\<exists>q. scrollProgress (fold animate_scrollA pgs s) = Num q
          \<and> scrollProgress (fold animate_scrollB pgs s) = Num q
          \<and> \<bar>t - q\<bar> < e + 1 / 2 ^ 47)"
  proof (intro exI [of _ N] allI impI)
    fix s :: "'b scroll_showcase_scheme" and t p :: real and pgs :: "page list"
    assume h: "steady s t p \<and> N \<le> length pgs"
    define q where "q = smooth_n (length pgs) t p"
    from h have st: "steady s t p" and n: "N \<le> length pgs" by simp_all
    from st have r: "0 \<le> t" "t \<le> 1" "0 \<le> p" "p \<le> 1" by (simp_all add: steady_def)
    from close_after [OF r N n]
    have c: "\<bar>t - (t - (t - p) * 0.92 ^ length pgs)\<bar> < e" .
    from ticks_progress [OF st, of pgs]
    have a: "scrollProgress (fold animate_scrollA pgs s) = Num q"
      "scrollProgress (fold animate_scrollB pgs s) = Num q"
      "\<bar>q - (t - (t - p) * 0.92 ^ length pgs)\<bar> \<le> 1 / 2 ^ 47"
      by (simp_all add: q_def)
    from c a(3) have "\<bar>t - q\<bar> < e + 1 / 2 ^ 47" by linarith
    with a show "\<exists>q. scrollProgress (fold animate_scrollA pgs s) = Num q
          \<and> scrollProgress (fold animate_scrollB pgs s) = Num q \<and> \<bar>t - q\<bar> < e + 1 / 2 ^ 47"
      by (intro exI [of _ q]) simp
  qed
next
  fix s :: "'c scroll_showcase_scheme" and pgs :: "page list"
  assume st: "steady s 1 0"
  from ticks_progress [OF st, of pgs]
  show "\<exists>q. scrollProgress (fold animate_scrollA pgs s) = Num q
          \<and> scrollProgress (fold animate_scrollB pgs s) = Num q
          \<and> \<bar>q - (1 - 0.92 ^ length pgs)\<bar> \<le> 1 / 2 ^ 47"
    by (intro exI [of _ "smooth_n (length pgs) 1 0"]) simp
qed

lemma jump_steady:
  "steady (onScroll ((page_of 1024 600)\<lparr>offsetHeight := 1800, rectTop := - 1200\<rparr>)
     (scrollA_at 1024 600)) 1 0"
  by (simp add: steady_def onScroll_target is_double_0 is_double_1)
     (simp add: onScroll_def Let_def scrollA_at_eq page_of_def)

lemma jump_two_ticks:
  "scrollProgress (fold animate_scrollA [page_of 1024 600, page_of 1024 600]
     (onScroll ((page_of 1024 600)\<lparr>offsetHeight := 1800, rectTop := - 1200\<rparr>)
        (scrollA_at 1024 600))) = Num (2767011611056433 / 2 ^ 54)"
proof -
  have "length [page_of 1024 600, page_of 1024 600] = Suc (Suc 0)" by simp
  with ticks_scrollA [OF jump_steady, of "[page_of 1024 600, page_of 1024 600]"]
  show ?thesis by (simp only: steady_def smooth_n_two)
qed

text \<open>The target jumps from 0 to 1 (a section of height 1800 in a window of height 600,
  scrolled by 1200); two ticks later the displayed progress is the double
  \<open>2767011611056433 / 2\<^sup>5\<^sup>4\<close> (printed 0.15360000000000001), within \<open>2\<^sup>-\<^sup>4\<^sup>7\<close> of
  \<open>1 - 0.92\<^sup>2 = 0.1536\<close>.\<close>

theorem smoothing_stays_close_witness:
  "steady (onScroll ((page_of 1024 600)\<lparr>offsetHeight := 1800, rectTop := - 1200\<rparr>)
             (scrollA_at 1024 600)) 1 0
   \<and> scrollProgress (fold animate_scrollA [page_of 1024 600, page_of 1024 600]
        (onScroll ((page_of 1024 600)\<lparr>offsetHeight := 1800, rectTop := - 1200\<rparr>)
           (scrollA_at 1024 600)))
       = Num (2767011611056433 / 2 ^ 54)
   \<and> \<bar>2767011611056433 / 2 ^ 54 - 0.1536\<bar> \<le> (1 / 2 ^ 47 :: real)"
proof -
  have e: "(1::real) - 0.92 ^ length [page_of 1024 600, page_of 1024 600] = 0.1536"
    by (simp add: power2_eq_square)
  from smoothing_stays_close [THEN conjunct2, THEN conjunct2, rule_format, OF jump_steady,
      of "[page_of 1024 600, page_of 1024 600]"]
  obtain q where q: "scrollProgress (fold animate_scrollA [page_of 1024 600, page_of 1024 600]
        (onScroll ((page_of 1024 600)\<lparr>offsetHeight := 1800, rectTop := - 1200\<rparr>)
           (scrollA_at 1024 600))) = Num q"
    "\<bar>q - (1 - 0.92 ^ length [page_of 1024 600, page_of 1024 600])\<bar> \<le> 1 / 2 ^ 47"
    by (elim exE conjE)
  from q(1) have "Num q = Num (2767011611056433 / 2 ^ 54)" by (simp only: jump_two_ticks)
  then have "q = 2767011611056433 / 2 ^ 54" by (simp only: jsnum.inject)
  with q(2) have "\<bar>2767011611056433 / 2 ^ 54 - 0.1536\<bar> \<le> (1 / 2 ^ 47 :: real)"
    by (simp only: e)
  with jump_steady jump_two_ticks show ?thesis by (intro conjI)
qed

text \<open>C4 as stated fails on doubles. After the jump of the target from 0 to 1 the first tick
  displays the double of 0.08, which is not \<open>1 - 0.92\<close>, and the second the double
  \<open>2767011611056433 / 2\<^sup>5\<^sup>4\<close>, which is not \<open>1 - 0.92\<^sup>2\<close>; and from the displayed progress
  \<open>1 - 6 * 2\<^sup>-\<^sup>5\<^sup>3\<close> towards the target 1 the tick adds a product that rounds away, so that the
  displayed progress stays where it is for ever, further than \<open>2\<^sup>-\<^sup>5\<^sup>1\<close> from the target.\<close>

theorem smoothing_rounds_and_stalls_counterexample:
  "steady (onScroll ((page_of 1024 600)\<lparr>offsetHeight := 1800, rectTop := - 1200\<rparr>)
             (scrollA_at 1024 600)) 1 0
   \<and> scrollProgress (animate_scrollA (page_of 1024 600)
        (onScroll ((page_of 1024 600)\<lparr>offsetHeight := 1800, rectTop := - 1200\<rparr>)
           (scrollA_at 1024 600))) = Num (5764607523034235 / 2 ^ 56)
   \<and> (5764607523034235 / 2 ^ 56 :: real) \<noteq> 1 - 0.92 ^ 1
   \<and> scrollProgress (fold animate_scrollA [page_of 1024 600, page_of 1024 600]
        (onScroll ((page_of 1024 600)\<lparr>offsetHeight := 1800, rectTop := - 1200\<rparr>)
           (scrollA_at 1024 600))) = Num (2767011611056433 / 2 ^ 54)
   \<and> (2767011611056433 / 2 ^ 54 :: real) \<noteq> 1 - 0.92 ^ 2
   \<and> steady ((onScroll ((page_of 1024 600)\<lparr>offsetHeight := 1800, rectTop := - 1200\<rparr>)
             (scrollA_at 1024 600))\<lparr>scrollProgress := Num (1 - 6 / 2 ^ 53)\<rparr>) 1 (1 - 6 / 2 ^ 53)
   \<and> (\<forall>pgs. scrollProgress (fold animate_scrollA pgs
        ((onScroll ((page_of 1024 600)\<lparr>offsetHeight := 1800, rectTop := - 1200\<rparr>)
           (scrollA_at 1024 600))\<lparr>scrollProgress := Num (1 - 6 / 2 ^ 53)\<rparr>)) = Num (1 - 6 / 2 ^ 53))
   \<and> (1 / 2 ^ 51 :: real) < \<bar>1 - (1 - 6 / 2 ^ 53)\<bar>"
proof -
  let ?s = "onScroll ((page_of 1024 600)\<lparr>offsetHeight := 1800, rectTop := - 1200\<rparr>)
             (scrollA_at 1024 600)"
  from steady_scrollA [OF jump_steady, of "page_of 1024 600"]
  have a: "scrollProgress (animate_scrollA (page_of 1024 600) ?s) = Num (5764607523034235 / 2 ^ 56)"
    by (simp only: steady_def smooth_first)
  have b: "(5764607523034235 / 2 ^ 56 :: real) \<noteq> 1 - 0.92 ^ 1" by simp
  have b2: "(2767011611056433 / 2 ^ 54 :: real) \<noteq> 1 - 0.92 ^ 2" by (simp add: power2_eq_square)
  have c: "steady (?s\<lparr>scrollProgress := Num (1 - 6 / 2 ^ 53)\<rparr>) 1 (1 - 6 / 2 ^ 53)"
    using jump_steady is_double_stall by (simp add: steady_def)
  have d: "scrollProgress (fold animate_scrollA pgs (?s\<lparr>scrollProgress := Num (1 - 6 / 2 ^ 53)\<rparr>))
      = Num (1 - 6 / 2 ^ 53)" for pgs
    using ticks_scrollA [OF c, of pgs] by (simp only: steady_def smooth_n_stall)
  have e: "(1 / 2 ^ 51 :: real) < \<bar>1 - (1 - 6 / 2 ^ 53)\<bar>" by simp
  show ?thesis by (intro conjI allI) (rule jump_steady a b b2 c d e jump_two_ticks)+
qed

section \<open>Ticks out of view\<close>

lemma animate_scrollA_paused:
  "\<not> isInView s \<Longrightarrow> animate_scrollA pg s = s\<lparr>frameRequests := frameRequests s + 1\<rparr>"
  by (simp add: animate_scrollA_def requestAnimationFrame_def Let_def)

lemma animate_scrollB_paused:
  "\<not> isInView s \<Longrightarrow> animate_scrollB pg s = s\<lparr>frameRequests := frameRequests s + 1\<rparr>"
  by (simp add: animate_scrollB_def requestAnimationFrame_def Let_def)

lemma paused_ticks_scrollA:
  "\<not> isInView s \<Longrightarrow>
   fold animate_scrollA pgs s = s\<lparr>frameRequests := frameRequests s + length pgs\<rparr>"
  by (induction pgs arbitrary: s) (simp_all add: animate_scrollA_paused)

lemma paused_ticks_scrollB:
  "\<not> isInView s \<Longrightarrow>
   fold animate_scrollB pgs s = s\<lparr>frameRequests := frameRequests s + length pgs\<rparr>"
  by (induction pgs arbitrary: s) (simp_all add: animate_scrollB_paused)

lemma observerCallback_last:
  "isInView (observerCallback (bs @ [b]) s) = b"
  by (simp add: observerCallback_def)

lemma observerCallback_base_fields:
  "isMobile (observerCallback bs s) = isMobile s \<and> scenes (observerCallback bs s) = scenes s
   \<and> gl (observerCallback bs s) = gl s"
  unfolding observerCallback_def by (induction bs arbitrary: s) simp_all

lemma animate_scrollA_calls:
  "isInView s \<Longrightarrow> calls_of (animate_scrollA pg) s \<noteq> []"
  by (simp add: calls_of_def animate_scrollA_def requestAnimationFrame_def Let_def
      animate_step_def render_scrollA_def emit_def renderer_render_def)

lemma animate_scrollB_calls:
  "isInView s \<Longrightarrow> calls_of (animate_scrollB pg) s \<noteq> []"
  by (simp add: calls_of_def animate_scrollB_def requestAnimationFrame_def Let_def
      animate_step_def render_scrollB_def emit_def renderer_render_def set_aspect_def
      updateProjectionMatrix_def)

text \<open>
  Out of view, any number of ticks of either scroll copy changes nothing but the count
  of requested frames: displayed progress, every object (so every model's rotation) and
  the renderer's log stay as they are, and a delivered animation frame leaves the whole
  instance unchanged. When the observer reports the instance in view, the next tick
  renders again.
\<close>

lemma scroll_ticks_skipped_out_of_view:
  assumes "\<not> isInView s"
  shows "fold animate_scrollA pgs s = s\<lparr>frameRequests := frameRequests s + length pgs\<rparr>
     \<and> fold animate_scrollB pgs s = s\<lparr>frameRequests := frameRequests s + length pgs\<rparr>
     \<and> scrollProgress (fold animate_scrollA pgs s) = scrollProgress s
     \<and> objects (fold animate_scrollA pgs s) = objects s
     \<and> gl (fold animate_scrollA pgs s) = gl s
     \<and> scrollProgress (fold animate_scrollB pgs s) = scrollProgress s
     \<and> objects (fold animate_scrollB pgs s) = objects s
     \<and> gl (fold animate_scrollB pgs s) = gl s
     \<and> dispatch_scrollA (AnimationFrame pg) s = s
     \<and> dispatch_scrollB (AnimationFrame pg) s = Inr s
     \<and> isInView (observerCallback [True] s)
     \<and> calls_of (animate_scrollA pg) (observerCallback [True] s) \<noteq> []
     \<and> calls_of (animate_scrollB pg) (observerCallback [True] s) \<noteq> []"
proof -
  have v: "isInView (observerCallback [True] s)"
    using observerCallback_last [of "[]" True s] by simp
  have a: "dispatch_scrollA (AnimationFrame pg) s = s"
    using assms by (simp add: animate_scrollA_paused)
  have b: "dispatch_scrollB (AnimationFrame pg) s = Inr s"
    using assms by (simp add: animate_scrollB_paused)
  show ?thesis
    using assms v a b animate_scrollA_calls [OF v, of pg] animate_scrollB_calls [OF v, of pg]
    by (simp add: paused_ticks_scrollA paused_ticks_scrollB)
qed

text \<open>
  C9 on the hover variant. Its instance has no field for visibility, no observer is
  created, and \<open>animate\<close> tests nothing: on the instance built with two panels on a page of
  1024 by 600, whether or not the canvas is in view, a tick (1/64 s after the last) turns
  both models about y by \<open>0.3 / 64\<close>, draws both scenes and requests the next frame.
\<close>

theorem animate_hover_never_pauses:
  "\<exists>s'. animate_hover (page_of 1024 600) (1 / 64) (hover_at 1024 600 spec_panels) = Inr s'
     \<and> map rotation_y (objects (hover_at 1024 600 spec_panels)) = [Num 0, Num 0]
     \<and> map rotation_y (objects s') =
         [Num (5404319552844595 / 2 ^ 60), Num (5404319552844595 / 2 ^ 60)]
     \<and> gl s' = gl (hover_at 1024 600 spec_panels) @
         [SetScissorTest True,
          SetViewport (Rect 0 0 512 600), SetScissor (Rect 0 0 512 600),
          Render (Some 0) (cam (hover_at 1024 600 spec_panels)),
          SetViewport (Rect 512 0 512 600), SetScissor (Rect 512 0 512 600),
          Render (Some 1) (cam (hover_at 1024 600 spec_panels))]
     \<and> frameRequests s' = frameRequests (hover_at 1024 600 spec_panels) + 1"
  by (simp add: animate_hover_def render_hover_throws hover_at_two Let_def
      requestAnimationFrame_def hovered_def literal_simps)
     (simp add: render_hover_def Let_def emit_def renderer_render_def scene_at_def
      Math_floor_half_div page_of_def round64_spin [simplified])

section \<open>Hover engagement\<close>



section \<open>An instance without panels\<close>

lemma observerCallback_frame:
  "loadingEl (observerCallback bs s) = loadingEl s
   \<and> hideTimers (observerCallback bs s) = hideTimers s
   \<and> frameRequests (observerCallback bs s) = frameRequests s"
  unfolding observerCallback_def by (induction bs arbitrary: s) simp_all

lemma dispatch_scrollA_no_panels:
  assumes "scenes s = []" "loadingEl s = el" "hideTimers s = 0" "frameRequests s = 1"
    "\<forall>sc c. Render sc c \<notin> set (gl s)"
  shows "scenes (dispatch_scrollA e s) = [] \<and> loadingEl (dispatch_scrollA e s) = el
     \<and> hideTimers (dispatch_scrollA e s) = 0 \<and> frameRequests (dispatch_scrollA e s) = 1
     \<and> (\<forall>sc c. Render sc c \<notin> set (gl (dispatch_scrollA e s)))"
proof (cases e)
  case (AnimationFrame pg)
  with assms show ?thesis
    by (simp add: animate_scrollA_def requestAnimationFrame_def Let_def animate_step_def
        render_scrollA_def emit_def renderer_render_def scene_at_def)
next
  case (ScrollEvent pg)
  with assms show ?thesis by (simp add: onScroll_def Let_def)
next
  case (ResizeEvent pg)
  with assms show ?thesis
    by (simp add: onResize_scroll_def Let_def emit_def set_aspect_def updateProjectionMatrix_def)
next
  case (Intersection bs)
  with assms show ?thesis
    by (simp add: observerCallback_frame observerCallback_base_fields)
next
  case HideTimeout
  with assms show ?thesis by (simp add: hideTimeout_scroll_def)
next
  case (LoadSuccess i)
  with assms show ?thesis by simp
next
  case (LoadFailure i)
  with assms show ?thesis by simp
qed

lemma run_scrollA_no_panels:
  assumes "scenes s = []" "loadingEl s = el" "hideTimers s = 0" "frameRequests s = 1"
    "\<forall>sc c. Render sc c \<notin> set (gl s)"
  shows "scenes (fold dispatch_scrollA es s) = [] \<and> loadingEl (fold dispatch_scrollA es s) = el
     \<and> hideTimers (fold dispatch_scrollA es s) = 0
     \<and> frameRequests (fold dispatch_scrollA es s) = 1
     \<and> (\<forall>sc c. Render sc c \<notin> set (gl (fold dispatch_scrollA es s)))"
  using assms
proof (induction es arbitrary: s)
  case Nil
  then show ?case by simp
next
  case (Cons e es)
  from dispatch_scrollA_no_panels [OF Cons.prems, of e]
  have "scenes (fold dispatch_scrollA es (dispatch_scrollA e s)) = []
     \<and> loadingEl (fold dispatch_scrollA es (dispatch_scrollA e s)) = el
     \<and> hideTimers (fold dispatch_scrollA es (dispatch_scrollA e s)) = 0
     \<and> frameRequests (fold dispatch_scrollA es (dispatch_scrollA e s)) = 1
     \<and> (\<forall>sc c. Render sc c \<notin> set (gl (fold dispatch_scrollA es (dispatch_scrollA e s))))"
    by (intro Cons.IH) simp_all
  then show ?case by simp
qed

lemma constructor_scrollA_no_panels:
  "constructor_scrollA pg [] el w =
     Inr \<lparr>panels = [], loadingEl = el, scenes = [], models = [], objects = [],
       isMobile = innerWidth pg < 768,
       cam = \<lparr>aspect = js_div (of_px (innerWidth pg)) (of_px (innerHeight pg)),
               projAspect = js_div (of_px (innerWidth pg)) (of_px (innerHeight pg))\<rparr>,
       gl = [SetSize (innerWidth pg) (innerHeight pg), SetScissorTest True, SetScissorTest True,
             SetViewport (first_region (innerWidth pg < 768) (innerWidth pg) (innerHeight pg)),
             SetScissor (first_region (innerWidth pg < 768) (innerWidth pg) (innerHeight pg))],
       frameRequests = 1, hideTimers = 0,
       scrollProgress = Num 0, targetScrollProgress = Num 0, isInView = True,
       observing = True, canvasWrapper = w, loadedCount = 0, pendingLoads = []\<rparr>"
  by (simp add: constructor_scrollA_def init_scrollA_def animate_scrollA_def render_scrollA_def
      new_scroll_def setupRenderer_scroll_def setupScenes_def setupCamera_scroll_def
      loadModels_scrollA_def requestAnimationFrame_def emit_def renderer_render_def scene_at_def
      Math_floor_half_div Let_def animate_step_def js_sub_def first_region_def literal_simps)

text \<open>
  C10. With an empty panel list the constructor of the first scroll copy returns an
  instance (it does not throw) whose loading element is as the page supplied it and which
  has no timeout pending; and after any sequence of events the loading element is still
  untouched (never faded, never hidden), no timeout is pending, the render loop is alive
  (one frame is requested) and no draw call was ever made, so none with a missing scene.
\<close>

theorem no_panels_never_ready:
  "\<exists>s0. constructor_scrollA pg [] el w = Inr s0
      \<and> loadingEl s0 = el \<and> hideTimers s0 = 0
      \<and> (\<forall>es. loadingEl (fold dispatch_scrollA es s0) = el
            \<and> hideTimers (fold dispatch_scrollA es s0) = 0
            \<and> frameRequests (fold dispatch_scrollA es s0) = 1
            \<and> (\<forall>sc c. Render sc c \<notin> set (gl (fold dispatch_scrollA es s0))))"
proof -
  obtain s0 where s0: "constructor_scrollA pg [] el w = Inr s0" "scenes s0 = []"
    "loadingEl s0 = el" "hideTimers s0 = 0" "frameRequests s0 = 1"
    "\<forall>sc c. Render sc c \<notin> set (gl s0)"
    by (simp add: constructor_scrollA_no_panels)
  from run_scrollA_no_panels [OF s0(2-6)] s0(1,3,4) show ?thesis by blast
qed


section \<open>After destroy\<close>

lemma length_release: "length (release rs os) = length os"
  by (induction rs arbitrary: os) simp_all

lemma destroy_scroll_fields:
  "gl (destroy_scroll s) = gl s @ [Dispose] \<and> \<not> observing (destroy_scroll s)
   \<and> frameRequests (destroy_scroll s) = frameRequests s
   \<and> pendingLoads (destroy_scroll s) = pendingLoads s
   \<and> scenes (destroy_scroll s) = scenes s \<and> models (destroy_scroll s) = models s
   \<and> length (objects (destroy_scroll s)) = length (objects s)
   \<and> isInView (destroy_scroll s) = isInView s"
  by (simp add: destroy_scroll_def Let_def emit_def length_release)

lemma js_get_js_set: "js_get (js_set xs i v) i = Some v"
  by (simp add: js_get_def js_set_def nth_append)

lemma add_model_stores:
  assumes "index < length (scenes s)"
  shows "\<exists>s'. add_model index g s = Inr s'
     \<and> js_get (models s') index = Some (length (objects s))
     \<and> children (scenes s' ! index) = children (scenes s ! index) @ [length (objects s)]"
  using assms by (simp add: add_model_def Let_def js_get_js_set)

lemma count_load_keeps:
  "models (count_load s) = models s \<and> scenes (count_load s) = scenes s"
  by (simp add: count_load_def Let_def onModelsLoaded_def split: option.split)

lemma animate_scrollB_requests:
  "frameRequests (animate_scrollB pg s) = frameRequests s + 1"
  by (simp add: animate_scrollB_def requestAnimationFrame_def Let_def animate_step_def
      render_scrollB_def emit_def renderer_render_def set_aspect_def updateProjectionMatrix_def)

text \<open>
  C2, as amended. \<open>destroy\<close> disposes the renderer and disconnects the observer; the
  requested frame, the pending loads, the scenes and the \<open>models\<close> array stay as they are.
  So a frame delivered after \<open>destroy\<close> requests the next one as before, and a load that
  calls back after \<open>destroy\<close> (success or failure) stores a new model in \<open>models[index]\<close> and
  adds it to \<open>scenes[index]\<close> as before.
\<close>

theorem destroy_cancels_nothing:
  assumes "0 < frameRequests s" "index \<in> set (pendingLoads s)" "index < length (scenes s)"
  shows "gl (destroy_scroll s) = gl s @ [Dispose] \<and> \<not> observing (destroy_scroll s)
     \<and> frameRequests (destroy_scroll s) = frameRequests s
     \<and> pendingLoads (destroy_scroll s) = pendingLoads s
     \<and> scenes (destroy_scroll s) = scenes s \<and> models (destroy_scroll s) = models s
     \<and> (\<exists>s'. dispatch_scrollB (AnimationFrame pg) (destroy_scroll s) = Inr s'
           \<and> frameRequests s' = frameRequests s)
     \<and> (\<exists>s'. dispatch_scrollB (LoadSuccess index) (destroy_scroll s) = Inr s'
           \<and> js_get (models s') index = Some (length (objects s))
           \<and> children (scenes s' ! index) = children (scenes s ! index) @ [length (objects s)])
     \<and> (\<exists>s'. dispatch_scrollB (LoadFailure index) (destroy_scroll s) = Inr s'
           \<and> js_get (models s') index = Some (length (objects s))
           \<and> children (scenes s' ! index) = children (scenes s ! index) @ [length (objects s)])"
proof -
  let ?d = "destroy_scroll s"
  let ?p = "?d\<lparr>pendingLoads := remove1 index (pendingLoads ?d)\<rparr>"
  have f: "frameRequests ?d = frameRequests s" "pendingLoads ?d = pendingLoads s"
    "scenes ?d = scenes s" "models ?d = models s" "length (objects ?d) = length (objects s)"
    by (simp_all add: destroy_scroll_fields)
  have a: "\<exists>s'. dispatch_scrollB (AnimationFrame pg) ?d = Inr s'
           \<and> frameRequests s' = frameRequests s"
    using assms(1) by (simp add: f animate_scrollB_requests)
  have i: "index < length (scenes ?p)" using assms(3) by (simp add: f)
  have o: "length (objects ?p) = length (objects s)" "scenes ?p = scenes s"
    by (simp_all add: f)
  have b: "\<exists>s'. dispatch_scrollB (LoadSuccess index) ?d = Inr s'
           \<and> js_get (models s') index = Some (length (objects s))
           \<and> children (scenes s' ! index) = children (scenes s ! index) @ [length (objects s)]"
  proof -
    from add_model_stores [OF i] obtain s1 where
      "add_model index \<lparr>placeholder = False, rotation_x = Num 0, rotation_y = Num 0,
             rotation_z = Num 0, released = False\<rparr> ?p = Inr s1"
      "js_get (models s1) index = Some (length (objects ?p))"
      "children (scenes s1 ! index) = children (scenes ?p ! index) @ [length (objects ?p)]"
      by blast
    then show ?thesis using assms(2)
      by (simp add: f onLoad_def count_load_keeps o del: add_model_def)
  qed
  have c: "\<exists>s'. dispatch_scrollB (LoadFailure index) ?d = Inr s'
           \<and> js_get (models s') index = Some (length (objects s))
           \<and> children (scenes s' ! index) = children (scenes s ! index) @ [length (objects s)]"
  proof -
    from add_model_stores [OF i] obtain s1 where
      "add_model index \<lparr>placeholder = True, rotation_x = Num 0, rotation_y = Num 0,
             rotation_z = Num 0, released = False\<rparr> ?p = Inr s1"
      "js_get (models s1) index = Some (length (objects ?p))"
      "children (scenes s1 ! index) = children (scenes ?p ! index) @ [length (objects ?p)]"
      by blast
    then show ?thesis using assms(2)
      by (simp add: f onError_def createPlaceholderModel_scroll_def count_load_keeps o)
  qed
  from a b c show ?thesis by (simp add: destroy_scroll_fields)
qed

text \<open>The second scroll copy on a page of 1024 by 600, destroyed while both loads are pending.\<close>

theorem destroy_cancels_nothing_witness:
  "0 < frameRequests (scrollB_at 1024 600) \<and> 0 \<in> set (pendingLoads (scrollB_at 1024 600))
   \<and> 0 < length (scenes (scrollB_at 1024 600))
   \<and> (\<exists>s'. dispatch_scrollB (AnimationFrame (page_of 1024 600))
               (destroy_scroll (scrollB_at 1024 600)) = Inr s'
           \<and> frameRequests s' = 1)
   \<and> (\<exists>s'. dispatch_scrollB (LoadSuccess 0) (destroy_scroll (scrollB_at 1024 600)) = Inr s'
           \<and> js_get (models s') 0 = Some 0 \<and> children (scenes s' ! 0) = [0])"
proof -
  have h: "0 < frameRequests (scrollB_at 1024 600)" "0 \<in> set (pendingLoads (scrollB_at 1024 600))"
    "0 < length (scenes (scrollB_at 1024 600))"
    by (simp_all add: scrollB_at_eq)
  have e: "frameRequests (scrollB_at 1024 600) = 1" "objects (scrollB_at 1024 600) = []"
    "children (scenes (scrollB_at 1024 600) ! 0) = []"
    by (simp_all add: scrollB_at_eq)
  from destroy_cancels_nothing [OF h, of "page_of 1024 600"] h show ?thesis
    by (simp add: e del: dispatch_scrollB.simps)
qed

text \<open>C2 as stated fails on that instance: after \<open>destroy\<close> a frame is still requested, the
  frame that runs requests another, and the load of panel 0 that then succeeds puts its
  model into the destroyed instance's \<open>models\<close> and first scene.\<close>

theorem destroy_keeps_loop_and_loads_counterexample:
  "frameRequests (destroy_scroll (scrollB_at 1024 600)) = 1
   \<and> frameRequests (projr (dispatch_scrollB (AnimationFrame (page_of 1024 600))
        (destroy_scroll (scrollB_at 1024 600)))) = 1
   \<and> children (scenes (destroy_scroll (scrollB_at 1024 600)) ! 0) = []
   \<and> children (scenes (projr (dispatch_scrollB (LoadSuccess 0)
        (destroy_scroll (scrollB_at 1024 600)))) ! 0) = [0]
   \<and> models (destroy_scroll (scrollB_at 1024 600)) = []
   \<and> models (projr (dispatch_scrollB (LoadSuccess 0)
        (destroy_scroll (scrollB_at 1024 600)))) = [Some 0]"
  by (simp add: scrollB_at_eq destroy_scroll_def emit_def Let_def animate_scrollB_def
      requestAnimationFrame_def animate_step_def render_scrollB_def renderer_render_def
      set_aspect_def updateProjectionMatrix_def onLoad_def add_model_def js_set_def
      count_load_def onModelsLoaded_def spec_panels_def)

section \<open>Camera aspect and missing scenes\<close>

lemma rect_aspect_regions:
  "rect_aspect (first_region m w h) = half_aspect m w h
   \<and> rect_aspect (second_region m w h) = half_aspect m w h"
  by (simp add: rect_aspect_def first_region_def second_region_def half_aspect_def)

text \<open>
  C5 on the hover variant, with two panels on a page of 1024 by 600: both regions are
  512 by 600, of aspect \<open>512 / 600\<close>, and both scenes are drawn with the camera's aspect and
  projection still at \<open>1024 / 600\<close>, the aspect of the whole surface. The second scroll copy
  draws both with \<open>512 / 600\<close>. (The quotients are the doubles \<open>7686143364045647 / 2\<^sup>5\<^sup>2\<close> and
  \<open>7686143364045647 / 2\<^sup>5\<^sup>3\<close>.)
\<close>

theorem render_hover_keeps_surface_aspect:
  "calls_of (render_hover (page_of 1024 600)) (hover_at 1024 600 spec_panels) =
     [SetScissorTest True,
      SetViewport (Rect 0 0 512 600), SetScissor (Rect 0 0 512 600),
      Render (Some 0) \<lparr>aspect = Num (7686143364045647 / 2 ^ 52),
        projAspect = Num (7686143364045647 / 2 ^ 52)\<rparr>,
      SetViewport (Rect 512 0 512 600), SetScissor (Rect 512 0 512 600),
      Render (Some 1) \<lparr>aspect = Num (7686143364045647 / 2 ^ 52),
        projAspect = Num (7686143364045647 / 2 ^ 52)\<rparr>]
   \<and> rect_aspect (Rect 0 0 512 600) = Num (7686143364045647 / 2 ^ 53)
   \<and> rect_aspect (Rect 512 0 512 600) = Num (7686143364045647 / 2 ^ 53)
   \<and> calls_of (render_scrollB (page_of 1024 600)) (scrollB_at 1024 600) =
     [SetScissorTest True,
      SetViewport (Rect 0 0 512 600), SetScissor (Rect 0 0 512 600),
      Render (Some 0) \<lparr>aspect = Num (7686143364045647 / 2 ^ 53),
        projAspect = Num (7686143364045647 / 2 ^ 53)\<rparr>,
      SetViewport (Rect 512 0 512 600), SetScissor (Rect 512 0 512 600),
      Render (Some 1) \<lparr>aspect = Num (7686143364045647 / 2 ^ 53),
        projAspect = Num (7686143364045647 / 2 ^ 53)\<rparr>]"
proof -
  have a: "cam (hover_at 1024 600 spec_panels) =
      \<lparr>aspect = Num (7686143364045647 / 2 ^ 52), projAspect = Num (7686143364045647 / 2 ^ 52)\<rparr>"
    "isMobile (hover_at 1024 600 spec_panels) = False"
    "length (scenes (hover_at 1024 600 spec_panels)) = 2"
    by (simp_all only: hover_at_two showcase.simps of_nat_numeral js_div_1024_600)
       simp_all
  have b: "isMobile (scrollB_at 1024 600) = False" "length (scenes (scrollB_at 1024 600)) = 2"
    by (simp_all add: scrollB_at_eq)
  have h: "half_aspect False 1024 600 = Num (7686143364045647 / 2 ^ 53)"
    by (simp only: half_aspect_def if_False of_px_def) (simp add: js_div_512_600 del: js_div.simps)
  have r: "rect_aspect (Rect 0 0 512 600) = Num (7686143364045647 / 2 ^ 53)"
    "rect_aspect (Rect 512 0 512 600) = Num (7686143364045647 / 2 ^ 53)"
    by (simp_all add: rect_aspect_def of_px_def js_div_512_600 del: js_div.simps)
  have c: "calls_of (render_hover (page_of 1024 600)) (hover_at 1024 600 spec_panels) =
     [SetScissorTest True,
      SetViewport (Rect 0 0 512 600), SetScissor (Rect 0 0 512 600),
      Render (Some 0) \<lparr>aspect = Num (7686143364045647 / 2 ^ 52),
        projAspect = Num (7686143364045647 / 2 ^ 52)\<rparr>,
      SetViewport (Rect 512 0 512 600), SetScissor (Rect 512 0 512 600),
      Render (Some 1) \<lparr>aspect = Num (7686143364045647 / 2 ^ 52),
        projAspect = Num (7686143364045647 / 2 ^ 52)\<rparr>]"
    by (simp add: render_hover_calls a page_of_def first_region_def second_region_def scene_at_def)
  have d: "calls_of (render_scrollB (page_of 1024 600)) (scrollB_at 1024 600) =
     [SetScissorTest True,
      SetViewport (Rect 0 0 512 600), SetScissor (Rect 0 0 512 600),
      Render (Some 0) \<lparr>aspect = Num (7686143364045647 / 2 ^ 53),
        projAspect = Num (7686143364045647 / 2 ^ 53)\<rparr>,
      SetViewport (Rect 512 0 512 600), SetScissor (Rect 512 0 512 600),
      Render (Some 1) \<lparr>aspect = Num (7686143364045647 / 2 ^ 53),
        projAspect = Num (7686143364045647 / 2 ^ 53)\<rparr>]"
    by (simp add: render_scrollB_calls b page_of_def first_region_def second_region_def h)
  from c r d show ?thesis by simp
qed

text \<open>
  C7 on the hover variant, with no panels on a page of 1024 by 600: there is no scene,
  and \<open>render\<close>, called by the constructor's first \<open>animate\<close>, calls \<^verbatim>\<open>renderer.render\<close> for the
  first region with \<^verbatim>\<open>undefined\<close> in place of the scene; the call throws, and the constructor
  ends with a \<^verbatim>\<open>TypeError\<close>. The first scroll copy, on the same page with no panels, makes
  no draw call.
\<close>

theorem render_hover_draws_missing_scene:
  "scenes (hover_without_panels 1024 600) = []
   \<and> calls_of (render_hover (page_of 1024 600)) (hover_without_panels 1024 600) =
     [SetScissorTest True,
      SetViewport (Rect 0 0 512 600), SetScissor (Rect 0 0 512 600),
      Render None \<lparr>aspect = Num (7686143364045647 / 2 ^ 52),
        projAspect = Num (7686143364045647 / 2 ^ 52)\<rparr>]
   \<and> constructor_hover (page_of 1024 600) 0 [] None = Inl TypeError
   \<and> calls_of (render_scrollA (page_of 1024 600))
        (projr (constructor_scrollA (page_of 1024 600) [] None None)) =
     [SetScissorTest True, SetViewport (Rect 0 0 512 600), SetScissor (Rect 0 0 512 600)]"
proof -
  have a: "cam (hover_without_panels 1024 600) =
      \<lparr>aspect = Num (7686143364045647 / 2 ^ 52), projAspect = Num (7686143364045647 / 2 ^ 52)\<rparr>"
    "isMobile (hover_without_panels 1024 600) = False"
    "scenes (hover_without_panels 1024 600) = []"
    by (simp_all only: hover_without_panels_eq showcase.simps of_nat_numeral js_div_1024_600)
       simp_all
  have c: "calls_of (render_hover (page_of 1024 600)) (hover_without_panels 1024 600) =
     [SetScissorTest True,
      SetViewport (Rect 0 0 512 600), SetScissor (Rect 0 0 512 600),
      Render None \<lparr>aspect = Num (7686143364045647 / 2 ^ 52),
        projAspect = Num (7686143364045647 / 2 ^ 52)\<rparr>]"
    by (simp add: render_hover_calls a page_of_def first_region_def second_region_def scene_at_def)
  have d: "calls_of (render_scrollA (page_of 1024 600))
        (projr (constructor_scrollA (page_of 1024 600) [] None None)) =
     [SetScissorTest True, SetViewport (Rect 0 0 512 600), SetScissor (Rect 0 0 512 600)]"
    by (simp add: render_scrollA_calls constructor_scrollA_no_panels page_of_def first_region_def
        second_region_def)
  from a(3) c d show ?thesis by (simp add: constructor_hover_no_panels)
qed

lemma render_scroll_skips_missing:
  "Render None c \<notin> set (calls_of (render_scrollA pg) s)
   \<and> Render None c \<notin> set (calls_of (render_scrollB pg) s)"
  by (simp add: render_scrollA_calls render_scrollB_calls)

section \<open>No handler of the second scroll copy throws\<close>

lemma setupScenes_loads_aux:
  fixes s :: "'a scroll_showcase_scheme"
  shows "pendingLoads (fold (\<lambda>p s. s\<lparr>scenes := scenes s @ [new_scene p]\<rparr>) ps s) = pendingLoads s"
  by (induction ps arbitrary: s) simp_all

lemma list_all_remove1: "list_all P xs \<Longrightarrow> list_all P (remove1 x xs)"
  by (induction xs) auto

lemma count_load_loads:
  "pendingLoads (count_load s) = pendingLoads s \<and> scenes (count_load s) = scenes s"
  by (simp add: count_load_def Let_def onModelsLoaded_def split: option.split)

lemma add_model_loads:
  fixes s :: "'a scroll_showcase_scheme"
  assumes "index < length (scenes s)"
  shows "\<exists>s'. add_model index g s = Inr s' \<and> pendingLoads s' = pendingLoads s
     \<and> length (scenes s') = length (scenes s)"
  using assms by (simp add: add_model_def Let_def)

lemma animate_scrollB_loads:
  "pendingLoads (animate_scrollB pg s) = pendingLoads s
   \<and> scenes (animate_scrollB pg s) = scenes s"
  by (simp add: animate_scrollB_def requestAnimationFrame_def Let_def animate_step_def
      render_scrollB_def emit_def renderer_render_def set_aspect_def updateProjectionMatrix_def)

lemma dispatch_scrollB_ok:
  assumes "loads_in_range s"
  shows "\<exists>s'. dispatch_scrollB e s = Inr s' \<and> loads_in_range s'"
proof (cases e)
  case (AnimationFrame pg)
  with assms show ?thesis
    by (simp add: loads_in_range_def animate_scrollB_loads)
next
  case (ScrollEvent pg)
  with assms show ?thesis by (simp add: loads_in_range_def onScroll_def Let_def)
next
  case (ResizeEvent pg)
  with assms show ?thesis
    by (simp add: loads_in_range_def onResize_scroll_def Let_def emit_def set_aspect_def
        updateProjectionMatrix_def)
next
  case (Intersection bs)
  have "pendingLoads (observerCallback bs s) = pendingLoads s"
    unfolding observerCallback_def by (induction bs arbitrary: s) simp_all
  with Intersection assms show ?thesis
    by (simp add: loads_in_range_def observerCallback_base_fields)
next
  case HideTimeout
  with assms show ?thesis by (simp add: loads_in_range_def hideTimeout_scroll_def)
next
  case (LoadSuccess i)
  show ?thesis
  proof (cases "i \<in> set (pendingLoads s)")
    case True
    let ?p = "s\<lparr>pendingLoads := remove1 i (pendingLoads s)\<rparr>"
    from True assms have i: "i < length (scenes ?p)"
      by (simp add: loads_in_range_def list_all_iff)
    from add_model_loads [OF i] obtain s1 where
      "add_model i \<lparr>placeholder = False, rotation_x = Num 0, rotation_y = Num 0,
             rotation_z = Num 0, released = False\<rparr> ?p = Inr s1"
      "pendingLoads s1 = pendingLoads ?p" "length (scenes s1) = length (scenes ?p)"
      by blast
    with True assms LoadSuccess show ?thesis
      by (simp add: onLoad_def loads_in_range_def count_load_loads list_all_remove1)
  next
    case False
    with LoadSuccess assms show ?thesis by simp
  qed
next
  case (LoadFailure i)
  show ?thesis
  proof (cases "i \<in> set (pendingLoads s)")
    case True
    let ?p = "s\<lparr>pendingLoads := remove1 i (pendingLoads s)\<rparr>"
    from True assms have i: "i < length (scenes ?p)"
      by (simp add: loads_in_range_def list_all_iff)
    from add_model_loads [OF i] obtain s1 where
      "add_model i \<lparr>placeholder = True, rotation_x = Num 0, rotation_y = Num 0,
             rotation_z = Num 0, released = False\<rparr> ?p = Inr s1"
      "pendingLoads s1 = pendingLoads ?p" "length (scenes s1) = length (scenes ?p)"
      by blast
    with True assms LoadFailure show ?thesis
      by (simp add: onError_def createPlaceholderModel_scroll_def loads_in_range_def
          count_load_loads list_all_remove1)
  next
    case False
    with LoadFailure assms show ?thesis by simp
  qed
qed

lemma run_scrollB_ok:
  "loads_in_range s \<Longrightarrow> \<exists>s'. run_scrollB es s = Inr s' \<and> loads_in_range s'"
proof (induction es arbitrary: s)
  case Nil
  then show ?case by simp
next
  case (Cons e es)
  from dispatch_scrollB_ok [OF Cons.prems, of e] obtain s1 where
    "dispatch_scrollB e s = Inr s1" "loads_in_range s1" by blast
  with Cons.IH [of s1] show ?case by simp
qed

lemma constructor_scrollB_loads: "loads_in_range (constructor_scrollB pg ps el w)"
proof -
  define s0 where "s0 = setupCamera_scroll pg (setupScenes (setupRenderer_scroll pg (new_scroll pg ps el w)))"
  have f: "length (scenes s0) = length ps" "panels s0 = ps" "pendingLoads s0 = []"
    by (simp_all add: s0_def setupCamera_scroll_def setupScenes_def Let_def
        setupScenes_length_aux setupScenes_loads_aux setupRenderer_scroll_def emit_def
        new_scroll_def)
  have "constructor_scrollB pg ps el w
          = animate_scrollB pg ((loadModels_scrollB s0)\<lparr>observing := True\<rparr>)"
    by (simp add: constructor_scrollB_def init_scrollB_def Let_def s0_def)
  then show ?thesis
    using f by (simp add: loads_in_range_def animate_scrollB_loads loadModels_scrollB_def
        list_all_iff)
qed

lemma destroy_hover_fields:
  "gl (destroy_hover s) = gl s @ [Dispose] \<and> frameRequests (destroy_hover s) = frameRequests s
   \<and> scenes (destroy_hover s) = scenes s \<and> models (destroy_hover s) = models s"
  by (simp add: destroy_hover_def Let_def emit_def)

lemma onResize_hover_fields:
  "isMobile (onResize_hover pg s) = (innerWidth pg < 768)
   \<and> scenes (onResize_hover pg s) = scenes s
   \<and> cam (onResize_hover pg s) =
       \<lparr>aspect = js_div (of_px (clientWidth pg)) (of_px (clientHeight pg)),
        projAspect = js_div (of_px (clientWidth pg)) (of_px (clientHeight pg))\<rparr>"
  by (simp add: onResize_hover_def Let_def emit_def set_aspect_def updateProjectionMatrix_def)

end
